theory Spec2Isabelle
  imports Main "HOL-Library.Sublist" "HOL-Library.AList"
begin

section \<open>Go strings\<close>

text \<open>
  A Go string is a sequence of bytes, and so is a \<^typ>\<open>string\<close> here (a \<^typ>\<open>char\<close> is one
  byte). The functions of package \<open>strings\<close> that \<open>main.go\<close> calls are modelled on bytes,
  with the UTF-8 encodings of the Unicode white space characters written out.
\<close>

type_synonym bytes = string

definition HasPrefix :: "string \<Rightarrow> string \<Rightarrow> bool" where
  "HasPrefix s p = (take (length p) s = p)"

definition TrimPrefix :: "string \<Rightarrow> string \<Rightarrow> string" where
  "TrimPrefix s p = (if HasPrefix s p then drop (length p) s else s)"

text \<open>
  \<open>unicode.IsSpace\<close>: the runes U+0009..U+000D, U+0020, U+0085, U+00A0, U+1680,
  U+2000..U+200A, U+2028, U+2029, U+202F, U+205F and U+3000, each given by its UTF-8 bytes.
  A byte sequence that is not the encoding of one of them decodes to another rune (or to the
  error rune), which is not white space.
\<close>

definition space_encodings :: "string list" where
  "space_encodings =
    [[CHR 0x09], [CHR 0x0A], [CHR 0x0B], [CHR 0x0C], [CHR 0x0D], [CHR 0x20],
     [CHR 0xC2, CHR 0x85], [CHR 0xC2, CHR 0xA0],
     [CHR 0xE1, CHR 0x9A, CHR 0x80],
     [CHR 0xE2, CHR 0x80, CHR 0x80], [CHR 0xE2, CHR 0x80, CHR 0x81],
     [CHR 0xE2, CHR 0x80, CHR 0x82], [CHR 0xE2, CHR 0x80, CHR 0x83],
     [CHR 0xE2, CHR 0x80, CHR 0x84], [CHR 0xE2, CHR 0x80, CHR 0x85],
     [CHR 0xE2, CHR 0x80, CHR 0x86], [CHR 0xE2, CHR 0x80, CHR 0x87],
     [CHR 0xE2, CHR 0x80, CHR 0x88], [CHR 0xE2, CHR 0x80, CHR 0x89],
     [CHR 0xE2, CHR 0x80, CHR 0x8A],
     [CHR 0xE2, CHR 0x80, CHR 0xA8], [CHR 0xE2, CHR 0x80, CHR 0xA9],
     [CHR 0xE2, CHR 0x80, CHR 0xAF], [CHR 0xE2, CHR 0x81, CHR 0x9F],
     [CHR 0xE3, CHR 0x80, CHR 0x80]]"

text \<open>
  \<open>strings.TrimLeftFunc\<close> decodes one rune after another from the front and stops at the
  first that is not white space: it strips leading encodings as long as there is one.
\<close>

function trim_front :: "string list \<Rightarrow> string \<Rightarrow> string" where
  "trim_front encs s =
     (case find (\<lambda>e. e \<noteq> [] \<and> take (length e) s = e) encs of
        None \<Rightarrow> s
      | Some e \<Rightarrow> trim_front encs (drop (length e) s))"
  by pat_completeness auto
termination
proof (relation "measure (\<lambda>(encs, s). length s)")
  show "wf (measure (\<lambda>(encs, s). length s))" by simp
next
  fix encs :: "string list" and s e :: string
  assume "find (\<lambda>e. e \<noteq> [] \<and> take (length e) s = e) encs = Some e"
  then have "e \<noteq> [] \<and> take (length e) s = e"
    by (auto simp: find_Some_iff)
  then have "0 < length e" and "length e \<le> length s"
    by (auto simp: min_def dest: arg_cong [where f = length] split: if_splits)
  then show "((encs, drop (length e) s), (encs, s)) \<in> measure (\<lambda>(encs, s). length s)"
    by (cases e) auto
qed

text \<open>
  \<open>strings.TrimSpace\<close> is \<open>TrimRightFunc (TrimLeftFunc s IsSpace) IsSpace\<close> (its ASCII fast
  path computes the same). From the right, \<open>DecodeLastRuneInString\<close> finds a white space
  rune exactly when the string ends with its encoding.
\<close>

definition TrimSpace :: "string \<Rightarrow> string" where
  "TrimSpace s = rev (trim_front (map rev space_encodings) (rev (trim_front space_encodings s)))"

text \<open>
  \<open>strings.ToLower\<close>: a string of ASCII bytes has its letters \<open>A\<close>..\<open>Z\<close> mapped to lower
  case. A string with a byte from 0x80 on goes through the Unicode case tables
  (\<open>strings.Map unicode.ToLower\<close>), which are not part of the repository: they are the
  parameter \<open>utab\<close>.
\<close>

definition isASCII :: "string \<Rightarrow> bool" where
  "isASCII s = list_all (\<lambda>c. of_char c < (0x80 :: nat)) s"

definition lower_byte :: "char \<Rightarrow> char" where
  "lower_byte c =
     (case map_of (zip ''ABCDEFGHIJKLMNOPQRSTUVWXYZ'' ''abcdefghijklmnopqrstuvwxyz'') c of
        None \<Rightarrow> c
      | Some l \<Rightarrow> l)"

definition ToLower :: "(string \<Rightarrow> string) \<Rightarrow> string \<Rightarrow> string" where
  "ToLower utab s = (if isASCII s then map lower_byte s else utab s)"

text \<open>The verb \<open>%d\<close> of \<open>fmt.Sprintf\<close> on an integer: decimal digits, a minus sign first
  when the number is negative.\<close>

definition digit_char :: "nat \<Rightarrow> char" where
  "digit_char d = ''0123456789'' ! d"

fun show_nat :: "nat \<Rightarrow> string" where
  "show_nat n = (if n < 10 then [digit_char n] else show_nat (n div 10) @ [digit_char (n mod 10)])"

declare show_nat.simps [simp del]

definition show_int :: "int \<Rightarrow> string" where
  "show_int i = (if i < 0 then CHR ''-'' # show_nat (nat (- i)) else show_nat (nat i))"

section \<open>Package \<open>path/filepath\<close> (Unix)\<close>

text \<open>A path is split at every separator: \<open>a//b\<close> has the elements \<open>a\<close>, the empty
  string and \<open>b\<close>.\<close>

fun split_sep :: "string \<Rightarrow> string list" where
  "split_sep [] = [[]]"
| "split_sep (c # cs) =
     (if c = CHR ''/'' then [] # split_sep cs
      else (case split_sep cs of [] \<Rightarrow> [[c]] | s # ss \<Rightarrow> (c # s) # ss))"

fun join_sep :: "string list \<Rightarrow> string" where
  "join_sep [] = []"
| "join_sep [s] = s"
| "join_sep (s # t # ss) = s @ CHR ''/'' # join_sep (t # ss)"

definition rooted :: "string \<Rightarrow> bool" where
  "rooted p = (case p of [] \<Rightarrow> False | c # _ \<Rightarrow> c = CHR ''/'')"

text \<open>
  \<open>filepath.Clean\<close> reads the path element by element and keeps the elements written so
  far; \<open>out\<close> holds them last element first. An empty element and \<open>.\<close> are dropped;
  \<open>..\<close> removes the last element written when that is a name, is dropped at the root of
  a rooted path, and is written otherwise (so a relative path keeps its leading \<open>..\<close>
  elements); a name is written.
\<close>

definition clean_step :: "bool \<Rightarrow> string list \<Rightarrow> string \<Rightarrow> string list" where
  "clean_step rt out seg =
     (if seg = [] \<or> seg = ''.'' then out
      else if seg = ''..'' then
        (case out of
           [] \<Rightarrow> (if rt then [] else [''..''])
         | t # ts \<Rightarrow> (if t = ''..'' then (if rt then out else ''..'' # out) else ts))
      else seg # out)"

definition Clean :: "string \<Rightarrow> string" where
  "Clean p =
     (if p = [] then ''.''
      else
        (let out = rev (foldl (clean_step (rooted p)) [] (split_sep p))
         in if rooted p then CHR ''/'' # join_sep out
            else if out = [] then ''.'' else join_sep out))"

text \<open>\<open>filepath.Join\<close> of two elements: the elements from the first non-empty one on are
  joined by a separator and cleaned; two empty elements give the empty string.\<close>

definition Join :: "string \<Rightarrow> string \<Rightarrow> string" where
  "Join a b =
     (if a \<noteq> [] then Clean (a @ CHR ''/'' # b)
      else if b \<noteq> [] then Clean b
      else [])"

text \<open>\<open>filepath.Dir\<close>: the path up to and including its last separator, cleaned.\<close>

definition Dir_of :: "string \<Rightarrow> string" where
  "Dir_of p = Clean (rev (dropWhile (\<lambda>c. c \<noteq> CHR ''/'') (rev p)))"

text \<open>\<open>filepath.Ext\<close> scans from the end of the path: it stops at a separator with the
  empty string, and at a dot with the suffix that starts there.\<close>

fun ext_scan :: "string \<Rightarrow> string \<Rightarrow> string" where
  "ext_scan acc [] = []"
| "ext_scan acc (c # cs) =
     (if c = CHR ''/'' then []
      else if c = CHR ''.'' then c # acc
      else ext_scan (c # acc) cs)"

definition Ext :: "string \<Rightarrow> string" where
  "Ext p = ext_scan [] (rev p)"

section \<open>The file system\<close>

text \<open>
  The storage medium is a tree of directories and regular files (no symbolic links). A
  file has its bytes and its modification time, in nanoseconds since the epoch; a
  directory lists its entries by name.
\<close>

datatype node = File bytes int | Dir "(string \<times> node) list"

datatype errno = ENOENT | ENOTDIR | EISDIR | EACCES | EIO

text \<open>
  The kernel resolves a path from the root for a rooted path and from the working
  directory otherwise. \<open>resolve\<close> gives the names from the root down to the entry: an
  empty element and \<open>.\<close> stay where they are, \<open>..\<close> goes to the parent (the root is its
  own parent). The stack is kept last name first.
\<close>

definition resolve_step :: "string list \<Rightarrow> string \<Rightarrow> string list" where
  "resolve_step out seg =
     (if seg = [] \<or> seg = ''.'' then out
      else if seg = ''..'' then tl out
      else seg # out)"

definition resolve :: "string list \<Rightarrow> string \<Rightarrow> string list" where
  "resolve wd p = rev (foldl resolve_step (if rooted p then [] else rev wd) (split_sep p))"

fun lookup :: "string list \<Rightarrow> node \<Rightarrow> errno + node" where
  "lookup [] n = Inr n"
| "lookup (s # ss) (File d m) = Inl ENOTDIR"
| "lookup (s # ss) (Dir es) =
     (case map_of es s of None \<Rightarrow> Inl ENOENT | Some c \<Rightarrow> lookup ss c)"

text \<open>\<open>mkdir -p\<close>: every missing directory on the way is created; a regular file on the
  way is an error.\<close>

fun mkdir_all :: "string list \<Rightarrow> node \<Rightarrow> errno + node" where
  "mkdir_all ss (File d m) = Inl ENOTDIR"
| "mkdir_all [] (Dir es) = Inr (Dir es)"
| "mkdir_all (s # ss) (Dir es) =
     (case mkdir_all ss (case map_of es s of None \<Rightarrow> Dir [] | Some c \<Rightarrow> c) of
        Inl e \<Rightarrow> Inl e
      | Inr c \<Rightarrow> Inr (Dir (AList.update s c es)))"

text \<open>Creating or truncating a regular file and writing its bytes: the parent must be
  a directory and the entry must not be one.\<close>

fun write_file :: "string list \<Rightarrow> bytes \<Rightarrow> int \<Rightarrow> node \<Rightarrow> errno + node" where
  "write_file ss d t (File d' m) = (if ss = [] then Inr (File d t) else Inl ENOTDIR)"
| "write_file [] d t (Dir es) = Inl EISDIR"
| "write_file [s] d t (Dir es) =
     (case map_of es s of
        Some (Dir es') \<Rightarrow> Inl EISDIR
      | _ \<Rightarrow> Inr (Dir (AList.update s (File d t) es)))"
| "write_file (s # s' # ss) d t (Dir es) =
     (case map_of es s of
        None \<Rightarrow> Inl ENOENT
      | Some c \<Rightarrow>
          (case write_file (s' # ss) d t c of
             Inl e \<Rightarrow> Inl e
           | Inr c' \<Rightarrow> Inr (Dir (AList.update s c' es))))"

text \<open>Putting a node in the place of the entry at a path, or unlinking that entry.\<close>

fun put_at :: "string list \<Rightarrow> node option \<Rightarrow> node \<Rightarrow> node" where
  "put_at [] None n = n"
| "put_at [] (Some n') n = n'"
| "put_at (s # ss) v (File d m) = File d m"
| "put_at [s] None (Dir es) = Dir (AList.delete s es)"
| "put_at (s # ss) v (Dir es) =
     (case map_of es s of
        None \<Rightarrow> Dir es
      | Some c \<Rightarrow> Dir (AList.update s (put_at ss v c) es))"

section \<open>The environment and the state of the process\<close>

text \<open>
  What the process cannot decide is the environment: the answer of the network to the
  \<open>k\<close>-th request the process makes, the clock's \<open>k\<close>-th reading (nanoseconds since the
  epoch), the system calls that fail for a reason outside the tree (permissions, a full or
  failing disk), the working directory and the Unicode case tables. What the process
  changes is the state: the file tree, the number of requests made and of clock readings
  taken, and the requests and sleeps so far, oldest first.
\<close>

datatype net_outcome =
    BadRequest
  | TransportError
  | Response int string bytes bool

datatype fs_op = OpStat | OpLstat | OpOpen | OpMkdir | OpCreate | OpRemove | OpReadDir

datatype event = EvFetch string | EvSleep int

record environment =
  net :: "nat \<Rightarrow> string \<Rightarrow> net_outcome"
  clock :: "nat \<Rightarrow> int"
  fault :: "fs_op \<Rightarrow> string \<Rightarrow> bool"
  short_write :: "string \<Rightarrow> nat option"
  wd :: "string list"
  utab :: "string \<Rightarrow> string"

record state =
  fs :: node
  fetches :: nat
  ticks :: nat
  events :: "event list"

record config =
  CustomDomain :: string
  PathPrefix :: string
  APIKey :: string
  StoragePath :: string
  FileExpiryHours :: int

text \<open>\<open>Response status header body err\<close> is an answer with that status code and that
  \<open>Content-Type\<close> header (empty when there is none), whose body delivers the bytes \<open>body\<close>
  and then ends, with a read error when \<open>err\<close> holds. \<open>BadRequest\<close> is a request that
  \<open>http.NewRequestWithContext\<close> refuses, \<open>TransportError\<close> one that \<open>Do\<close> fails on (the
  five second deadline included).\<close>

definition second :: int where
  "second = 1000000000"

definition now_nano :: "environment \<Rightarrow> state \<Rightarrow> int \<times> state" where
  "now_nano e s = (clock e (ticks s), s\<lparr>ticks := ticks s + 1\<rparr>)"

definition sleep :: "int \<Rightarrow> state \<Rightarrow> state" where
  "sleep d s = s\<lparr>events := events s @ [EvSleep d]\<rparr>"

text \<open>\<open>Time.Sub\<close> saturates at the least and the greatest \<open>Duration\<close> (an \<open>int64\<close>).\<close>

definition time_Sub :: "int \<Rightarrow> int \<Rightarrow> int" where
  "time_Sub t u = max (- (2 ^ 63)) (min (2 ^ 63 - 1) (t - u))"

subsection \<open>System calls\<close>

definition sys_stat :: "environment \<Rightarrow> state \<Rightarrow> string \<Rightarrow> errno + node" where
  "sys_stat e s p =
     (if p = [] then Inl ENOENT
      else if fault e OpStat p then Inl EACCES
      else lookup (resolve (wd e) p) (fs s))"

definition sys_open_read :: "environment \<Rightarrow> state \<Rightarrow> string \<Rightarrow> errno + bytes" where
  "sys_open_read e s p =
     (if p = [] then Inl ENOENT
      else if fault e OpOpen p then Inl EACCES
      else (case lookup (resolve (wd e) p) (fs s) of
              Inl er \<Rightarrow> Inl er
            | Inr (File d m) \<Rightarrow> Inr d
            | Inr (Dir es) \<Rightarrow> Inr []))"

definition MkdirAll :: "environment \<Rightarrow> string \<Rightarrow> state \<Rightarrow> (errno + unit) \<times> state" where
  "MkdirAll e p s =
     (if p = [] then (Inl ENOENT, s)
      else if fault e OpMkdir p then (Inl EACCES, s)
      else (case mkdir_all (resolve (wd e) p) (fs s) of
              Inl er \<Rightarrow> (Inl er, s)
            | Inr n \<Rightarrow> (Inr (), s\<lparr>fs := n\<rparr>)))"

text \<open>\<open>os.WriteFile\<close> opens the file with \<open>O_CREATE\<close> and \<open>O_TRUNC\<close>, writes and closes.
  The file's modification time is the clock's reading then. When the write or the close
  fails (\<open>short_write\<close>), the file is left with the bytes that were written.\<close>

definition WriteFile :: "environment \<Rightarrow> string \<Rightarrow> bytes \<Rightarrow> state \<Rightarrow> (errno + unit) \<times> state" where
  "WriteFile e p d s =
     (if p = [] then (Inl ENOENT, s)
      else if fault e OpCreate p then (Inl EACCES, s)
      else
        (let (t, s1) = now_nano e s in
         case short_write e p of
           None \<Rightarrow>
             (case write_file (resolve (wd e) p) d t (fs s1) of
                Inl er \<Rightarrow> (Inl er, s1)
              | Inr n \<Rightarrow> (Inr (), s1\<lparr>fs := n\<rparr>))
         | Some k \<Rightarrow>
             (case write_file (resolve (wd e) p) (take k d) t (fs s1) of
                Inl er \<Rightarrow> (Inl er, s1)
              | Inr n \<Rightarrow> (Inl EIO, s1\<lparr>fs := n\<rparr>))))"

section \<open>The handlers of \<open>main.go\<close>\<close>

text \<open>
  Each handler is a function of the configuration, the environment, its request and the
  state. What it writes to the log and the CORS headers that it copies into its response
  are left out: no statement below is about them.
\<close>

subsection \<open>\<open>downloadImage\<close>\<close>

text \<open>The errors of \<open>downloadImage\<close>. The two errors made with \<open>fmt.Errorf\<close> carry the
  status code and at most 100 bytes of the body (\<open>io.LimitReader\<close>).\<close>

datatype fetch_error =
    RequestErr
  | TransportErr
  | ServerError int bytes
  | ClientError int bytes
  | ReadErr

definition media_type_of :: "string \<Rightarrow> string" where
  "media_type_of ct = TrimSpace (takeWhile (\<lambda>c. c \<noteq> CHR '';'') ct)"

definition download_result :: "net_outcome \<Rightarrow> fetch_error + bytes \<times> string" where
  "download_result r =
     (case r of
        BadRequest \<Rightarrow> Inl RequestErr
      | TransportError \<Rightarrow> Inl TransportErr
      | Response status header body err \<Rightarrow>
          (if status \<ge> 500 \<or> status = 429 then Inl (ServerError status (take 100 body))
           else if status \<ge> 400 then Inl (ClientError status (take 100 body))
           else if err then Inl ReadErr
           else Inr (body, media_type_of header)))"

definition downloadImage ::
  "environment \<Rightarrow> string \<Rightarrow> state \<Rightarrow> (fetch_error + bytes \<times> string) \<times> state" where
  "downloadImage e imageURL s =
     (download_result (net e (fetches s) imageURL),
      s\<lparr>fetches := fetches s + 1, events := events s @ [EvFetch imageURL]\<rparr>)"

subsection \<open>\<open>getExtFromContentType\<close> and \<open>randomString\<close>\<close>

definition getExtFromContentType :: "string \<Rightarrow> string" where
  "getExtFromContentType ct =
     (if ct = ''image/jpeg'' \<or> ct = ''image/jpg'' then ''jpg''
      else if ct = ''image/png'' then ''png''
      else if ct = ''image/webp'' then ''webp''
      else if ct = ''image/gif'' then ''gif''
      else ''png'')"

definition letters :: string where
  "letters = ''abcdefghijklmnopqrstuvwxyz0123456789''"

text \<open>Go's \<open>%\<close> truncates towards zero: the remainder has the sign of the dividend.\<close>

definition go_rem :: "int \<Rightarrow> int \<Rightarrow> int" where
  "go_rem a b = sgn a * (\<bar>a\<bar> mod \<bar>b\<bar>)"

text \<open>Every byte of \<open>randomString\<close> is chosen by a reading of the clock of its own. A
  negative index into \<open>letters\<close> is a run-time panic: the result is \<open>None\<close>.\<close>

fun randomString :: "environment \<Rightarrow> nat \<Rightarrow> state \<Rightarrow> string option \<times> state" where
  "randomString e 0 s = (Some [], s)"
| "randomString e (Suc n) s =
     (let (t, s1) = now_nano e s;
          i = go_rem t (int (length letters))
      in if i < 0 then (None, s1)
         else (case randomString e n s1 of
                 (None, s2) \<Rightarrow> (None, s2)
               | (Some b, s2) \<Rightarrow> (Some (letters ! nat i # b), s2)))"

subsection \<open>\<open>handleProxy\<close>\<close>

text \<open>
  A request to \<open>/proxy\<close>: its method, its \<open>X-API-Key\<close> header and its body as
  \<open>json.Decoder\<close> reads it into a \<open>map[string]string\<close> (\<open>None\<close> when decoding fails). The
  three messages of \<open>responseError\<close> are the three errors: \<open>InvalidRequest\<close> is the message
  of the checks before the download, \<open>DownloadFailed\<close> the one after the last failed
  attempt, \<open>StorageFailed\<close> the one of \<open>MkdirAll\<close> and \<open>WriteFile\<close>.
\<close>

text \<open>Indexing a Go map: a key that is missing gives the zero value, the empty
  string.\<close>

definition map_index :: "(string \<Rightarrow> string option) \<Rightarrow> string \<Rightarrow> string" where
  "map_index m k = (case m k of None \<Rightarrow> [] | Some v \<Rightarrow> v)"

record request =
  Method :: string
  XAPIKey :: string
  Body :: "(string \<Rightarrow> string option) option"

datatype ingest_error = InvalidRequest | DownloadFailed | StorageFailed

datatype proxy_response =
    ProxyError ingest_error
  | ProxySuccess string string nat
  | ProxyPanic

text \<open>The loop \<open>for i := 0; i < 3; i++\<close>: \<open>prev\<close> holds \<open>imageData\<close>, \<open>contentType\<close> and
  \<open>err\<close> as the previous iteration left them; before the first iteration they are
  \<open>nil\<close>, the empty string and \<open>nil\<close>.\<close>

function attempts ::
  "environment \<Rightarrow> string \<Rightarrow> nat \<Rightarrow> (fetch_error + bytes \<times> string) \<Rightarrow> state
     \<Rightarrow> (fetch_error + bytes \<times> string) \<times> state" where
  "attempts e imageURL i prev s =
     (if i < 3 then
        (case downloadImage e imageURL s of
           (Inr r, s1) \<Rightarrow> (Inr r, s1)
         | (Inl err, s1) \<Rightarrow>
             attempts e imageURL (i + 1) (Inl err)
               (if i < 2 then sleep (int (i + 1) * second) s1 else s1))
      else (prev, s))"
  by pat_completeness auto
termination
  by (relation "measure (\<lambda>(e, imageURL, i, prev, s). 3 - i)") auto

declare attempts.simps [simp del]

text \<open>The second half of \<open>handleProxy\<close>, from the choice of the extension on: what it
  does with the bytes and the content type of a download that succeeded.\<close>

definition store_image ::
  "config \<Rightarrow> environment \<Rightarrow> bytes \<Rightarrow> string \<Rightarrow> state \<Rightarrow> proxy_response \<times> state" where
  "store_image cfg e imageData contentType s1 =
     (let ext0 = getExtFromContentType contentType;
          ext = (if ext0 = [] then ''png'' else ext0);
          (t, s2) = now_nano e s1
      in case randomString e 6 s2 of
           (None, s3) \<Rightarrow> (ProxyPanic, s3)
         | (Some rnd, s3) \<Rightarrow>
             (let filename = PathPrefix cfg @ show_int t @ ''-'' @ rnd @ ''.'' @ ext;
                  fullPath = Join (StoragePath cfg) filename
              in case MkdirAll e (Dir_of fullPath) s3 of
                   (Inl er, s4) \<Rightarrow> (ProxyError StorageFailed, s4)
                 | (Inr u, s4) \<Rightarrow>
                     (case WriteFile e fullPath imageData s4 of
                        (Inl er, s5) \<Rightarrow> (ProxyError StorageFailed, s5)
                      | (Inr u', s5) \<Rightarrow>
                          (ProxySuccess (CustomDomain cfg @ ''/'' @ filename)
                             contentType (length imageData), s5))))"

definition handleProxy ::
  "config \<Rightarrow> environment \<Rightarrow> request \<Rightarrow> state \<Rightarrow> proxy_response \<times> state" where
  "handleProxy cfg e r s =
     (if Method r \<noteq> ''POST'' then (ProxyError InvalidRequest, s)
      else if APIKey cfg \<noteq> [] \<and> XAPIKey r \<noteq> APIKey cfg then (ProxyError InvalidRequest, s)
      else
        (case Body r of
           None \<Rightarrow> (ProxyError InvalidRequest, s)
         | Some data \<Rightarrow>
             (let imageURL = TrimSpace (map_index data ''url'')
              in if imageURL = [] then (ProxyError InvalidRequest, s)
                 else
                   (case attempts e imageURL 0 (Inr ([], [])) s of
                      (Inl err, s1) \<Rightarrow> (ProxyError DownloadFailed, s1)
                    | (Inr (imageData, contentType), s1) \<Rightarrow>
                        store_image cfg e imageData contentType s1))))"

subsection \<open>\<open>handleImage\<close>\<close>

text \<open>
  The answers of \<open>handleImage\<close>: 404, 500, or the file with its \<open>Content-Type\<close>, the
  modification time in seconds that its \<open>ETag\<close> prints, and its bytes. When \<open>os.Stat\<close>
  fails, its \<open>FileInfo\<close> is \<open>nil\<close>; the condition
  \<open>os.IsNotExist(err) || info.IsDir()\<close> then calls \<open>IsDir\<close> on it unless the error is
  \<open>ENOENT\<close>, which is a run-time panic: \<open>ServePanic\<close>.
\<close>

datatype serve_response =
    NotFound
  | ReadFailed
  | Served string int bytes
  | ServePanic

definition content_type_of_ext :: "string \<Rightarrow> string" where
  "content_type_of_ext ext =
     (if ext = ''.jpg'' \<or> ext = ''.jpeg'' then ''image/jpeg''
      else if ext = ''.png'' then ''image/png''
      else if ext = ''.webp'' then ''image/webp''
      else if ext = ''.gif'' then ''image/gif''
      else ''image/png'')"

text \<open>The path that \<open>handleImage\<close> makes from the path of the URL: its \<open>filePath\<close>.\<close>

definition image_path :: "config \<Rightarrow> string \<Rightarrow> string" where
  "image_path cfg urlPath = Join (StoragePath cfg) (TrimPrefix urlPath ''/'')"

definition handleImage :: "config \<Rightarrow> environment \<Rightarrow> string \<Rightarrow> state \<Rightarrow> serve_response" where
  "handleImage cfg e urlPath s =
     (let filePath = image_path cfg urlPath
      in case sys_stat e s filePath of
           Inl er \<Rightarrow> (if er = ENOENT then NotFound else ServePanic)
         | Inr (Dir es) \<Rightarrow> NotFound
         | Inr (File d m) \<Rightarrow>
             (let contentType = content_type_of_ext (ToLower (utab e) (Ext filePath))
              in case sys_open_read e s filePath of
                   Inl er \<Rightarrow> ReadFailed
                 | Inr b \<Rightarrow> Served contentType (m div second) b))"


subsection \<open>\<open>cleanupOldFiles\<close>\<close>

text \<open>
  The function that \<open>cleanupOldFiles\<close> passes to \<open>filepath.Walk\<close>, for the entry at \<open>path\<close>
  with the node \<open>info\<close> that \<open>Lstat\<close> found; \<open>err\<close> says that \<open>Walk\<close> reports an error for
  the entry. It answers whether it removed the entry.
\<close>

definition visit :: "environment \<Rightarrow> int \<Rightarrow> int \<Rightarrow> string \<Rightarrow> node \<Rightarrow> bool \<Rightarrow> bool" where
  "visit e now expiryDuration path info err =
     (if err then False
      else (case info of
              Dir es \<Rightarrow> False
            | File d m \<Rightarrow>
                (if time_Sub now m > expiryDuration then \<not> fault e OpRemove path
                 else False)))"

text \<open>
  \<open>filepath.Walk\<close>, with a function that always returns \<open>nil\<close>: a regular file is
  visited; a directory is read, visited (with the error of the reading, and then not
  entered), and each of its names is joined to the path and looked up with \<open>Lstat\<close>: when
  that fails the function is called with the error, otherwise the entry is walked.
  \<open>walk\<close> gives what is left of the node, \<open>None\<close> when it was removed.
\<close>

fun walk :: "environment \<Rightarrow> int \<Rightarrow> int \<Rightarrow> string \<Rightarrow> node \<Rightarrow> node option"
  and walk_names ::
    "environment \<Rightarrow> int \<Rightarrow> int \<Rightarrow> string \<Rightarrow> (string \<times> node) list \<Rightarrow> (string \<times> node) list" where
  "walk e now ttl path (File d m) =
     (if visit e now ttl path (File d m) False then None else Some (File d m))"
| "walk e now ttl path (Dir es) =
     (if fault e OpReadDir path
      then (if visit e now ttl path (Dir es) True then None else Some (Dir es))
      else if visit e now ttl path (Dir es) False then None
      else Some (Dir (walk_names e now ttl path es)))"
| "walk_names e now ttl path [] = []"
| "walk_names e now ttl path ((name, c) # es) =
     (if fault e OpLstat (Join path name)
      then (if visit e now ttl (Join path name) c True then [] else [(name, c)])
           @ walk_names e now ttl path es
      else (case walk e now ttl (Join path name) c of
              None \<Rightarrow> walk_names e now ttl path es
            | Some c' \<Rightarrow> (name, c') # walk_names e now ttl path es))"

definition cleanupOldFiles :: "config \<Rightarrow> environment \<Rightarrow> state \<Rightarrow> state" where
  "cleanupOldFiles cfg e s =
     (let (now, s1) = now_nano e s;
          root = StoragePath cfg
      in case (if root = [] then Inl ENOENT
               else if fault e OpLstat root then Inl EACCES
               else lookup (resolve (wd e) root) (fs s1)) of
           Inl er \<Rightarrow> s1
         | Inr info \<Rightarrow>
             s1\<lparr>fs := put_at (resolve (wd e) root)
                        (walk e now (FileExpiryHours cfg) root info) (fs s1)\<rparr>)"

section \<open>Notions of the statements\<close>

text \<open>What one failed iteration \<open>i\<close> of the loop adds to the events: the request, and
  the sleep of \<open>i + 1\<close> seconds unless it was the last iteration.\<close>

definition backoff :: "string \<Rightarrow> nat \<Rightarrow> event list" where
  "backoff u i = EvFetch u # (if i < 2 then [EvSleep (int (i + 1) * second)] else [])"

text \<open>The delay before each request of a run: the sleeps since the request before it
  (or since the start), added up.\<close>

fun delay_list :: "int \<Rightarrow> event list \<Rightarrow> int list" where
  "delay_list acc [] = []"
| "delay_list acc (EvSleep d # es) = delay_list (acc + d) es"
| "delay_list acc (EvFetch u # es) = acc # delay_list 0 es"

text \<open>
  The media type that belongs to a content type: the four types that have an extension
  of their own, \<open>image/jpeg\<close> for its other spelling \<open>image/jpg\<close>, and \<open>image/png\<close>, the
  type of the default extension, for every other content type.
\<close>

definition sniffed_media_type :: "string \<Rightarrow> string" where
  "sniffed_media_type ct =
     (if ct = ''image/jpeg'' \<or> ct = ''image/jpg'' then ''image/jpeg''
      else if ct = ''image/png'' then ''image/png''
      else if ct = ''image/webp'' then ''image/webp''
      else if ct = ''image/gif'' then ''image/gif''
      else ''image/png'')"




text \<open>
  The regular files below a node, each with the path that \<open>filepath.Walk\<close> gives it, its
  bytes, its modification time, and whether a walk reaches it: it does not when \<open>Lstat\<close>
  fails on the file or on a directory above it, or when a directory above it cannot be
  read.
\<close>

type_synonym stored = "string \<times> bytes \<times> int \<times> bool"

fun files_of :: "environment \<Rightarrow> bool \<Rightarrow> string \<Rightarrow> node \<Rightarrow> stored list"
  and files_in :: "environment \<Rightarrow> bool \<Rightarrow> string \<Rightarrow> (string \<times> node) list \<Rightarrow> stored list" where
  "files_of e r path (File d m) = [(path, d, m, r)]"
| "files_of e r path (Dir es) = files_in e (r \<and> \<not> fault e OpReadDir path) path es"
| "files_in e r path [] = []"
| "files_in e r path ((name, c) # es) =
     files_of e (r \<and> \<not> fault e OpLstat (Join path name)) (Join path name) c
     @ files_in e r path es"

definition files_opt :: "environment \<Rightarrow> bool \<Rightarrow> string \<Rightarrow> node option \<Rightarrow> stored list" where
  "files_opt e r path v = (case v of None \<Rightarrow> [] | Some n \<Rightarrow> files_of e r path n)"

text \<open>The files of the store: those below the storage path.\<close>

definition store_files :: "config \<Rightarrow> environment \<Rightarrow> state \<Rightarrow> stored list" where
  "store_files cfg e s =
     (if StoragePath cfg = [] then []
      else (case lookup (resolve (wd e) (StoragePath cfg)) (fs s) of
              Inl er \<Rightarrow> []
            | Inr n \<Rightarrow> files_of e (\<not> fault e OpLstat (StoragePath cfg)) (StoragePath cfg) n))"

text \<open>A sweep at the time \<open>now\<close> evicts a file when it reaches it, its age is above the
  time to live and removing it does not fail.\<close>

definition evicted :: "environment \<Rightarrow> int \<Rightarrow> int \<Rightarrow> stored \<Rightarrow> bool" where
  "evicted e now ttl x =
     (case x of (p, d, m, r) \<Rightarrow> r \<and> time_Sub now m > ttl \<and> \<not> fault e OpRemove p)"

section \<open>Runs of the handlers on a small machine\<close>

text \<open>
  A configuration as \<open>init\<close> makes it from the defaults (with another domain), a process
  in \<open>/root\<close> whose storage directory exists and is empty, a clock that advances by one
  nanosecond from reading to reading, and no failing system call. The Unicode case tables
  are not looked at by any of the runs: the identity stands for them.
\<close>

definition example_cfg :: config where
  "example_cfg =
     \<lparr>CustomDomain = ''https://images.example.com'', PathPrefix = ''img/'', APIKey = [],
      StoragePath = ''./storage'', FileExpiryHours = 24 * 3600 * second\<rparr>"

definition example_fs :: node where
  "example_fs =
     Dir [(''root'', Dir [(''storage'', Dir [])]),
          (''etc'', Dir [(''passwd'', File ''root:x:0:0'' 1600000000000000000)])]"

definition example_state :: state where
  "example_state = \<lparr>fs = example_fs, fetches = 0, ticks = 0, events = []\<rparr>"

definition example_env :: "(nat \<Rightarrow> string \<Rightarrow> net_outcome) \<Rightarrow> (nat \<Rightarrow> int) \<Rightarrow> environment" where
  "example_env n c =
     \<lparr>net = n, clock = c, fault = (\<lambda>opn p. False), short_write = (\<lambda>p. None),
      wd = [''root''], utab = (\<lambda>s. s)\<rparr>"

definition ticking :: "nat \<Rightarrow> int" where
  "ticking k = 1700000000000000000 + int k"

definition always_500 :: "nat \<Rightarrow> string \<Rightarrow> net_outcome" where
  "always_500 k u = Response 500 [] ''oops'' False"

definition post :: "string \<Rightarrow> request" where
  "post u = \<lparr>Method = ''POST'', XAPIKey = [], Body = Some [''url'' \<mapsto> u]\<rparr>"

text \<open>A remote that answers every request with status 200,
  the given \<open>Content-Type\<close> header and a body that names the URL; a clock that stands
  still; and a state whose storage directory holds one image.\<close>

definition answers :: "string \<Rightarrow> nat \<Rightarrow> string \<Rightarrow> net_outcome" where
  "answers header k u = Response 200 header (''image at '' @ u) False"

definition frozen :: "nat \<Rightarrow> int" where
  "frozen k = 1700000000000000000"

definition stored_state :: state where
  "stored_state =
     \<lparr>fs = Dir [(''root'', Dir [(''storage'', Dir [(''img'',
              Dir [(''a.png'', File ''PNG'' 1700000000000000000)])])]),
            (''etc'', Dir [(''passwd'', File ''root:x:0:0'' 1600000000000000000)])],
      fetches = 0, ticks = 0, events = []\<rparr>"

text \<open>The states after a first and after a second ingest while the clock stands
  still.\<close>

definition after_one :: state where
  "after_one =
     \<lparr>fs = Dir [(''root'', Dir [(''storage'', Dir [(''img'',
              Dir [(''1700000000000000000-iiiiii.jpg'',
                    File ''image at http://h/one.jpg'' 1700000000000000000)])])]),
            (''etc'', Dir [(''passwd'', File ''root:x:0:0'' 1600000000000000000)])],
      fetches = 1, ticks = 8, events = [EvFetch ''http://h/one.jpg'']\<rparr>"

definition after_two :: state where
  "after_two =
     \<lparr>fs = Dir [(''root'', Dir [(''storage'', Dir [(''img'',
              Dir [(''1700000000000000000-iiiiii.jpg'',
                    File ''image at http://h/two.jpg'' 1700000000000000000)])])]),
            (''etc'', Dir [(''passwd'', File ''root:x:0:0'' 1600000000000000000)])],
      fetches = 2, ticks = 16,
      events = [EvFetch ''http://h/one.jpg'', EvFetch ''http://h/two.jpg'']\<rparr>"

text \<open>A state whose store holds a file written 25 hours and a file written one
  hour before the time at which the clock stands.\<close>

definition sweep_state :: state where
  "sweep_state =
     \<lparr>fs = Dir [(''root'', Dir [(''storage'', Dir [(''img'',
              Dir [(''old.png'', File ''OLD'' 1699910000000000000),
                   (''new.png'', File ''NEW'' 1699996400000000000)])])])],
      fetches = 0, ticks = 0, events = []\<rparr>"

section \<open>The retry loop\<close>

lemma attempts_run:
  assumes "i < 3" and "attempts e u i prev s = (res, s')"
  shows "\<exists>k. i + k < 3
           \<and> (\<forall>j<k. isl (download_result (net e (fetches s + j) u)))
           \<and> res = download_result (net e (fetches s + k) u)
           \<and> (isl res \<longrightarrow> i + k = 2)
           \<and> fetches s' = fetches s + k + 1
           \<and> events s' = events s @ concat (map (backoff u) [i..<i + k]) @ [EvFetch u]
           \<and> fs s' = fs s \<and> ticks s' = ticks s"
  using assms
proof (induction e u i prev s arbitrary: res s' rule: attempts.induct)
  case (1 e u i prev s)
  let ?r = "download_result (net e (fetches s) u)"
  let ?s1 = "s\<lparr>fetches := fetches s + 1, events := events s @ [EvFetch u]\<rparr>"
  have d: "downloadImage e u s = (?r, ?s1)" by (simp add: downloadImage_def)
  show ?case
  proof (cases ?r)
    case (Inr x)
    with "1.prems" d have "res = ?r" "s' = ?s1"
      by (simp_all add: attempts.simps [of e u i])
    with Inr "1.prems"(1) show ?thesis
      by (intro exI [of _ 0]) simp
  next
    case (Inl err)
    show ?thesis
    proof (cases "i < 2")
      case False
      with "1.prems"(1) have i: "i = 2" by simp
      with "1.prems" d Inl have "res = ?r" "s' = ?s1"
        by (simp_all add: attempts.simps [of e u 2] attempts.simps [of e u 3])
      with Inl i show ?thesis
        by (intro exI [of _ 0]) simp
    next
      case True
      let ?s2 = "sleep (int (i + 1) * second) ?s1"
      from "1.prems" d Inl True have a: "attempts e u (i + 1) (Inl err) ?s2 = (res, s')"
        by (simp add: attempts.simps [of e u i])
      from True have lt: "i + 1 < 3" by simp
      from "1.IH" [OF "1.prems"(1) d [symmetric] Inl lt] a True
      obtain k where k: "i + 1 + k < 3"
        "\<forall>j<k. isl (download_result (net e (fetches ?s2 + j) u))"
        "res = download_result (net e (fetches ?s2 + k) u)"
        "isl res \<longrightarrow> i + 1 + k = 2"
        "fetches s' = fetches ?s2 + k + 1"
        "events s' = events ?s2 @ concat (map (backoff u) [i + 1..<i + 1 + k]) @ [EvFetch u]"
        "fs s' = fs ?s2" "ticks s' = ticks ?s2"
        by auto
      have up: "[i..<i + Suc k] = i # [i + 1..<i + 1 + k]"
        by (simp add: upt_rec [of i])
      have all: "\<forall>j<Suc k. isl (download_result (net e (fetches s + j) u))"
      proof (intro allI impI)
        fix j assume "j < Suc k"
        show "isl (download_result (net e (fetches s + j) u))"
        proof (cases j)
          case 0
          with Inl show ?thesis by simp
        next
          case (Suc j')
          with \<open>j < Suc k\<close> k(2) show ?thesis by (auto simp: sleep_def)
        qed
      qed
      from k all up True show ?thesis
        by (intro exI [of _ "Suc k"]) (simp add: sleep_def backoff_def)
    qed
  qed
qed

lemma upt_0_2: "[0..<2] = [0, Suc 0]"
  by (simp add: numeral_2_eq_2)

lemma attempts_all_fail:
  assumes "\<forall>k<3. isl (download_result (net e (fetches s + k) u))"
  shows "\<exists>err s'. attempts e u 0 prev s = (Inl err, s')
           \<and> fetches s' = fetches s + 3
           \<and> events s' = events s @
                [EvFetch u, EvSleep second, EvFetch u, EvSleep (2 * second), EvFetch u]
           \<and> fs s' = fs s \<and> ticks s' = ticks s"
proof -
  obtain res s' where a: "attempts e u 0 prev s = (res, s')"
    by (cases "attempts e u 0 prev s")
  from attempts_run [OF _ a] obtain k where k: "k < 3"
    "res = download_result (net e (fetches s + k) u)" "isl res \<longrightarrow> k = 2"
    "fetches s' = fetches s + k + 1"
    "events s' = events s @ concat (map (backoff u) [0..<k]) @ [EvFetch u]"
    "fs s' = fs s" "ticks s' = ticks s"
    by auto
  from assms k(1,2) have f: "isl res" by simp
  with k(3) have k2: "k = 2" by simp
  from f obtain err where r: "res = Inl err" by (cases res) auto
  from a r have "attempts e u 0 prev s = (Inl err, s')" by simp
  with k(4-) k2 show ?thesis
    by (intro exI [of _ err] exI [of _ s']) (simp add: upt_0_2 backoff_def)
qed

section \<open>Claims about the download and the retry loop\<close>

lemma upt_0_3: "[0..<3] = [0, Suc 0, Suc (Suc 0)]"
  by (simp add: numeral_3_eq_3)

text \<open>
  Claim C7. A request whose \<open>url\<close> is empty or trims to the empty string (white space
  only, or no \<open>url\<close> at all) is answered with the error of an invalid request, and the
  state is the one before: no request went to the network and nothing was recorded.
\<close>

theorem blank_url_is_rejected:
  assumes "Body r = Some d" and "TrimSpace (map_index d ''url'') = []"
  shows "handleProxy cfg e r s = (ProxyError InvalidRequest, s)
         \<and> fetches (snd (handleProxy cfg e r s)) = fetches s
         \<and> events (snd (handleProxy cfg e r s)) = events s"
  using assms by (simp add: handleProxy_def)

theorem blank_url_is_rejected_witness:
  "handleProxy example_cfg (example_env always_500 ticking) (post [CHR 0x20, CHR 0x09, CHR 0xC2, CHR 0xA0]) example_state
     = (ProxyError InvalidRequest, example_state)"
proof -
  have b: "Body (post [CHR 0x20, CHR 0x09, CHR 0xC2, CHR 0xA0])
             = Some [''url'' \<mapsto> [CHR 0x20, CHR 0x09, CHR 0xC2, CHR 0xA0]]"
    by (simp add: post_def)
  have t: "TrimSpace (map_index [''url'' \<mapsto> [CHR 0x20, CHR 0x09, CHR 0xC2, CHR 0xA0]] ''url'') = []"
    by (simp add: map_index_def TrimSpace_def space_encodings_def)
  from blank_url_is_rejected [OF b t] show ?thesis by simp
qed

text \<open>
  Claim C4. \<open>downloadImage\<close> answers by the status code: a server error from 500 on and
  at 429, a client error from 400 up to 499 except 429, and below 400 the bytes of the
  body with the media type, unless reading the body fails. It returns an error exactly
  when the status is 400 or more or the transport failed: the request could not be made
  or sent, or the body could not be read.
\<close>

theorem fetch_classifies_by_status:
  "fst (downloadImage e u s) = download_result (net e (fetches s) u)
   \<and> (status \<ge> 500 \<or> status = 429 \<longrightarrow>
        download_result (Response status header body err)
          = Inl (ServerError status (take 100 body)))
   \<and> (400 \<le> status \<and> status < 500 \<and> status \<noteq> 429 \<longrightarrow>
        download_result (Response status header body err)
          = Inl (ClientError status (take 100 body)))
   \<and> (status < 400 \<and> \<not> err \<longrightarrow>
        download_result (Response status header body err) = Inr (body, media_type_of header))
   \<and> (isl (download_result (Response status header body err)) \<longleftrightarrow> status \<ge> 400 \<or> err)
   \<and> isl (download_result BadRequest) \<and> isl (download_result TransportError)"
  by (auto simp: download_result_def downloadImage_def)

theorem fetch_classifies_by_status_witness:
  "download_result (Response 503 [] ''down'' False) = Inl (ServerError 503 ''down'')
   \<and> download_result (Response 429 [] ''slow'' False) = Inl (ServerError 429 ''slow'')
   \<and> download_result (Response 404 [] ''gone'' False) = Inl (ClientError 404 ''gone'')
   \<and> download_result (Response 302 ''image/png'' ''PNG'' False)
        = Inr (''PNG'', media_type_of ''image/png'')"
  using fetch_classifies_by_status [of e u s 503 "[]" "''down''" False]
    fetch_classifies_by_status [of e u s 429 "[]" "''slow''" False]
    fetch_classifies_by_status [of e u s 404 "[]" "''gone''" False]
    fetch_classifies_by_status [of e u s 302 "''image/png''" "''PNG''" False]
  by simp

text \<open>
  Claim C2. When every attempt to download the URL fails, \<open>handleProxy\<close> makes exactly
  three requests (with a sleep of one and of two seconds between them), answers with the
  error of a failed download, and the file tree is the one before.
\<close>

theorem failing_url_three_attempts:
  assumes "Method r = ''POST''" and "APIKey cfg = [] \<or> XAPIKey r = APIKey cfg"
    and "Body r = Some d" and "TrimSpace (map_index d ''url'') = u" and "u \<noteq> []"
    and "\<forall>k<3. isl (download_result (net e (fetches s + k) u))"
  shows "fst (handleProxy cfg e r s) = ProxyError DownloadFailed
         \<and> fetches (snd (handleProxy cfg e r s)) = fetches s + 3
         \<and> events (snd (handleProxy cfg e r s)) = events s @
              [EvFetch u, EvSleep second, EvFetch u, EvSleep (2 * second), EvFetch u]
         \<and> fs (snd (handleProxy cfg e r s)) = fs s"
proof -
  from attempts_all_fail [OF assms(6)] obtain err s'
    where a: "attempts e u 0 (Inr ([], [])) s = (Inl err, s')"
      and s': "fetches s' = fetches s + 3"
        "events s' = events s @
           [EvFetch u, EvSleep second, EvFetch u, EvSleep (2 * second), EvFetch u]"
        "fs s' = fs s"
    by blast
  from assms(1-5) a have "handleProxy cfg e r s = (ProxyError DownloadFailed, s')"
    by (auto simp: handleProxy_def)
  with s' show ?thesis by simp
qed

theorem failing_url_three_attempts_witness:
  "fst (handleProxy example_cfg (example_env always_500 ticking) (post ''http://h/a.png'') example_state)
     = ProxyError DownloadFailed
   \<and> fetches (snd (handleProxy example_cfg (example_env always_500 ticking) (post ''http://h/a.png'') example_state)) = 3
   \<and> fs (snd (handleProxy example_cfg (example_env always_500 ticking) (post ''http://h/a.png'') example_state))
       = example_fs"
proof -
  have m: "Method (post ''http://h/a.png'') = ''POST''"
    and k: "APIKey example_cfg = [] \<or> XAPIKey (post ''http://h/a.png'') = APIKey example_cfg"
    and b: "Body (post ''http://h/a.png'') = Some [''url'' \<mapsto> ''http://h/a.png'']"
    by (simp_all add: post_def example_cfg_def)
  have t: "TrimSpace (map_index [''url'' \<mapsto> ''http://h/a.png''] ''url'') = ''http://h/a.png''"
    by (simp add: map_index_def TrimSpace_def space_encodings_def)
  have n: "''http://h/a.png'' \<noteq> []" by simp
  have f: "\<forall>k<3. isl (download_result
             (net (example_env always_500 ticking) (fetches example_state + k) ''http://h/a.png''))"
    by (simp add: example_env_def always_500_def download_result_def)
  from failing_url_three_attempts [OF m k b t n f] show ?thesis
    by (simp add: example_state_def)
qed

text \<open>
  Claim C3, as the specification states it: the delay before attempt \<open>i\<close>, for \<open>i\<close> below
  three, is \<open>i\<close> seconds. In the run of three failing attempts the first attempt is made
  at once and the second after one second, not after two.
\<close>

theorem backoff_before_attempt_counterexample:
  "delay_list 0 (events (snd (handleProxy example_cfg (example_env always_500 ticking)
      (post ''http://h/a.png'') example_state))) = [0, 1000000000, 2000000000]
   \<and> delay_list 0 (events (snd (handleProxy example_cfg (example_env always_500 ticking)
        (post ''http://h/a.png'') example_state))) ! (1 - 1) \<noteq> 1 * second
   \<and> delay_list 0 (events (snd (handleProxy example_cfg (example_env always_500 ticking)
        (post ''http://h/a.png'') example_state))) ! (2 - 1) \<noteq> 2 * second"
proof -
  have f: "\<forall>k<3. isl (download_result
             (net (example_env always_500 ticking) (fetches example_state + k) ''http://h/a.png''))"
    by (simp add: example_env_def always_500_def download_result_def)
  from attempts_all_fail [OF f, of "Inr ([], [])"] obtain err s'
    where a: "attempts (example_env always_500 ticking) ''http://h/a.png'' 0 (Inr ([], []))
                example_state = (Inl err, s')"
      and ev: "events s' = events example_state @
           [EvFetch ''http://h/a.png'', EvSleep second, EvFetch ''http://h/a.png'',
            EvSleep (2 * second), EvFetch ''http://h/a.png'']"
    by blast
  have t: "TrimSpace (map_index [''url'' \<mapsto> ''http://h/a.png''] ''url'') = ''http://h/a.png''"
    by (simp add: map_index_def TrimSpace_def space_encodings_def)
  from a t have "handleProxy example_cfg (example_env always_500 ticking)
      (post ''http://h/a.png'') example_state = (ProxyError DownloadFailed, s')"
    by (simp add: handleProxy_def post_def example_cfg_def)
  with ev show ?thesis
    by (simp add: example_state_def second_def)
qed

text \<open>
  Claim C3, amended: the loop makes its first attempt at once. After the failure of
  attempt \<open>i\<close> (counted from one), for \<open>i\<close> below three, it sleeps \<open>i\<close> seconds and then
  makes attempt \<open>i + 1\<close>; it stops at the first attempt that succeeds, and after the third
  attempt without a sleep. So with \<open>k\<close> the number of failed attempts before the last
  attempt made, the events of the loop are, for each \<open>i\<close> below \<open>k\<close>, the request and the
  sleep of \<open>i + 1\<close> seconds, and then the last request; the delay before attempt \<open>i + 1\<close>
  is \<open>i\<close> seconds, linear in \<open>i\<close> and not decreasing.
\<close>

theorem backoff_after_failed_attempt:
  assumes "attempts e u 0 prev s = (res, s')"
  shows "\<exists>k<3.
      (\<forall>j<k. isl (download_result (net e (fetches s + j) u)))
      \<and> res = download_result (net e (fetches s + k) u)
      \<and> (isl res \<longrightarrow> k = 2)
      \<and> fetches s' = fetches s + k + 1
      \<and> events s' = events s
            @ concat (map (\<lambda>i. [EvFetch u, EvSleep (int (i + 1) * second)]) [0..<k])
            @ [EvFetch u]
      \<and> delay_list 0 (drop (length (events s)) (events s'))
            = map (\<lambda>i. int i * second) [0..<Suc k]
      \<and> sorted (delay_list 0 (drop (length (events s)) (events s')))"
proof -
  have "0 < (3::nat)" by simp
  from attempts_run [OF this assms] obtain k where k0: "0 + k < 3"
    "\<forall>j<k. isl (download_result (net e (fetches s + j) u))"
    "res = download_result (net e (fetches s + k) u)"
    "isl res \<longrightarrow> 0 + k = 2"
    "fetches s' = fetches s + k + 1"
    "events s' = events s @ concat (map (backoff u) [0..<0 + k]) @ [EvFetch u]"
    by blast
  from k0(1) have k1: "k < 3" by simp
  from k0(4) have k4: "isl res \<longrightarrow> k = 2" by simp
  from k0(6) have k6: "events s' = events s @ concat (map (backoff u) [0..<k]) @ [EvFetch u]"
    by simp
  from k1 consider "k = 0" | "k = 1" | "k = 2" by linarith
  then have "events s' = events s
            @ concat (map (\<lambda>i. [EvFetch u, EvSleep (int (i + 1) * second)]) [0..<k])
            @ [EvFetch u]
      \<and> delay_list 0 (drop (length (events s)) (events s'))
            = map (\<lambda>i. int i * second) [0..<Suc k]
      \<and> sorted (delay_list 0 (drop (length (events s)) (events s')))"
  proof cases
    case 1
    with k6 show ?thesis by simp
  next
    case 2
    with k6 show ?thesis by (simp add: backoff_def second_def)
  next
    case 3
    with k6 show ?thesis by (simp add: backoff_def upt_0_2 upt_0_3 second_def)
  qed
  with k1 k0(2,3) k4 k0(5) show ?thesis by blast
qed

theorem backoff_after_failed_attempt_witness:
  "events (snd (attempts (example_env always_500 ticking) ''http://h/a.png'' 0
      (Inr ([], [])) example_state))
     = [EvFetch ''http://h/a.png'', EvSleep 1000000000, EvFetch ''http://h/a.png'',
        EvSleep 2000000000, EvFetch ''http://h/a.png'']
   \<and> events (snd (attempts (example_env (answers ''image/png'') ticking) ''http://h/a.png'' 0
      (Inr ([], [])) example_state))
     = [EvFetch ''http://h/a.png'']"
proof -
  let ?u = "''http://h/a.png''"
  let ?e = "example_env always_500 ticking"
  let ?f = "example_env (answers ''image/png'') ticking"
  obtain res s' where a: "attempts ?e ?u 0 (Inr ([], [])) example_state = (res, s')"
    by (cases "attempts ?e ?u 0 (Inr ([], [])) example_state")
  from backoff_after_failed_attempt [OF a] obtain k
    where k: "res = download_result (net ?e (fetches example_state + k) ?u)"
      "isl res \<longrightarrow> k = 2"
      "events s' = events example_state
         @ concat (map (\<lambda>i. [EvFetch ?u, EvSleep (int (i + 1) * second)]) [0..<k])
         @ [EvFetch ?u]"
    by blast
  from k(1) have "isl res"
    by (simp add: example_env_def always_500_def download_result_def)
  with k(2) have "k = 2" by simp
  with k(3) have 1: "events s' = [EvFetch ?u, EvSleep 1000000000, EvFetch ?u,
        EvSleep 2000000000, EvFetch ?u]"
    by (simp add: upt_0_2 example_state_def second_def)
  obtain res2 s2 where b: "attempts ?f ?u 0 (Inr ([], [])) example_state = (res2, s2)"
    by (cases "attempts ?f ?u 0 (Inr ([], [])) example_state")
  from backoff_after_failed_attempt [OF b] obtain j
    where j: "\<forall>i<j. isl (download_result (net ?f (fetches example_state + i) ?u))"
      "events s2 = events example_state
         @ concat (map (\<lambda>i. [EvFetch ?u, EvSleep (int (i + 1) * second)]) [0..<j])
         @ [EvFetch ?u]"
    by blast
  have "j = 0"
  proof (rule ccontr)
    assume "j \<noteq> 0"
    with j(1) have "isl (download_result (net ?f (fetches example_state + 0) ?u))" by blast
    then show False
      by (simp add: example_env_def answers_def download_result_def)
  qed
  with j(2) have 2: "events s2 = [EvFetch ?u]" by (simp add: example_state_def)
  from a b 1 2 show ?thesis by simp
qed

section \<open>Lemmas about paths, names and the file tree\<close>

lemma split_sep_not_Nil: "split_sep p \<noteq> []"
  by (induction p) (auto split: list.splits)

lemma split_sep_no_sep: "CHR ''/'' \<notin> set t \<Longrightarrow> split_sep t = [t]"
  by (induction t) auto

lemma split_sep_append:
  "CHR ''/'' \<notin> set t \<Longrightarrow> split_sep (p @ t) = butlast (split_sep p) @ [last (split_sep p) @ t]"
proof (induction p)
  case Nil
  then show ?case by (simp add: split_sep_no_sep)
next
  case (Cons c p)
  obtain s ss where s: "split_sep p = s # ss"
    using split_sep_not_Nil [of p] by (cases "split_sep p") auto
  obtain s' ss' where s': "split_sep (p @ t) = s' # ss'"
    using split_sep_not_Nil [of "p @ t"] by (cases "split_sep (p @ t)") auto
  from Cons s s' show ?case
    by (cases ss) (auto split: if_splits)
qed

lemma clean_step_name:
  "g \<noteq> [] \<Longrightarrow> g \<noteq> ''.'' \<Longrightarrow> g \<noteq> ''..'' \<Longrightarrow> clean_step rt out g = g # out"
  by (simp add: clean_step_def)

lemma join_sep_snoc: "\<exists>y. join_sep (ys @ [g]) = y @ g"
proof (induction ys)
  case Nil
  then show ?case by simp
next
  case (Cons a ys)
  then obtain y where y: "join_sep (ys @ [g]) = y @ g" by blast
  show ?case
  proof (cases ys)
    case Nil
    then show ?thesis by simp
  next
    case (Cons b zs)
    with y show ?thesis by simp
  qed
qed

lemma Clean_keeps_last_name:
  assumes "CHR ''/'' \<notin> set t" and "t \<noteq> []" and "last t \<noteq> CHR ''.''"
  shows "\<exists>y. Clean (q @ t) = y @ t"
proof -
  let ?g = "last (split_sep q) @ t"
  let ?rt = "rooted (q @ t)"
  from assms(2,3) have g: "?g \<noteq> []" "?g \<noteq> ''.''" "?g \<noteq> ''..''"
    by (auto simp: append_eq_Cons_conv Cons_eq_append_conv)
  have "foldl (clean_step ?rt) [] (split_sep (q @ t))
          = ?g # foldl (clean_step ?rt) [] (butlast (split_sep q))"
    using assms(1) g by (simp add: split_sep_append clean_step_name)
  then have out: "rev (foldl (clean_step ?rt) [] (split_sep (q @ t)))
          = rev (foldl (clean_step ?rt) [] (butlast (split_sep q))) @ [?g]"
    by simp
  obtain y where y: "join_sep (rev (foldl (clean_step ?rt) [] (split_sep (q @ t)))) = y @ ?g"
    unfolding out using join_sep_snoc by blast
  show ?thesis
  proof (cases ?rt)
    case True
    with assms(2) y have "Clean (q @ t) = (CHR ''/'' # y @ last (split_sep q)) @ t"
      by (simp add: Clean_def Let_def)
    then show ?thesis by blast
  next
    case False
    with assms(2) y out have "Clean (q @ t) = (y @ last (split_sep q)) @ t"
      by (simp add: Clean_def Let_def)
    then show ?thesis by blast
  qed
qed

lemma ext_scan_name:
  "CHR ''.'' \<notin> set x \<Longrightarrow> CHR ''/'' \<notin> set x
     \<Longrightarrow> ext_scan acc (rev x @ CHR ''.'' # r) = CHR ''.'' # x @ acc"
  by (induction x arbitrary: acc rule: rev_induct) auto

lemma Ext_of_name:
  "CHR ''.'' \<notin> set x \<Longrightarrow> CHR ''/'' \<notin> set x \<Longrightarrow> Ext (y @ CHR ''.'' # x) = CHR ''.'' # x"
  using ext_scan_name [of x "[]" "rev y"] by (simp add: Ext_def)

lemma Join_keeps_last_name:
  assumes "CHR ''/'' \<notin> set t" and "t \<noteq> []" and "last t \<noteq> CHR ''.''"
  shows "\<exists>y. Join a (p @ t) = y @ t"
proof (cases "a = []")
  case True
  with assms(2) have "Join a (p @ t) = Clean (p @ t)" by (simp add: Join_def)
  with Clean_keeps_last_name [OF assms] show ?thesis by simp
next
  case False
  then have "Join a (p @ t) = Clean ((a @ CHR ''/'' # p) @ t)" by (simp add: Join_def)
  with Clean_keeps_last_name [OF assms, of "a @ CHR ''/'' # p"] show ?thesis by simp
qed

lemma show_nat_chars: "set (show_nat n) \<subseteq> set ''0123456789''"
proof (induction n rule: show_nat.induct)
  case (1 n)
  have d: "\<And>k. k < 10 \<Longrightarrow> digit_char k \<in> set ''0123456789''"
    unfolding digit_char_def by (rule nth_mem) simp
  show ?case
  proof (cases "n < 10")
    case True
    with d [of n] show ?thesis by (simp add: show_nat.simps [of n])
  next
    case False
    with "1.IH" d [of "n mod 10"] show ?thesis
      by (simp add: show_nat.simps [of n])
  qed
qed

lemma show_int_no_sep: "CHR ''/'' \<notin> set (show_int i)"
  using show_nat_chars [of "nat i"] show_nat_chars [of "nat (- i)"]
  by (auto simp: show_int_def)

lemma go_rem_36: "0 \<le> go_rem t 36 \<Longrightarrow> nat (go_rem t 36) < 36"
  by (cases "t < 0"; cases "t = 0") (simp_all add: go_rem_def)

lemma randomString_chars:
  "randomString e n s = (Some b, s') \<Longrightarrow> set b \<subseteq> set letters \<and> length b = n"
proof (induction n arbitrary: s b s')
  case 0
  then show ?case by simp
next
  case (Suc n)
  let ?s1 = "snd (now_nano e s)"
  let ?i = "go_rem (fst (now_nano e s)) (int (length letters))"
  from Suc.prems have i: "\<not> ?i < 0"
    by (auto simp: Let_def split: prod.splits if_splits)
  with Suc.prems obtain b' where b': "randomString e n ?s1 = (Some b', s')"
    and b: "b = letters ! nat ?i # b'"
    by (auto simp: Let_def split: prod.splits if_splits option.splits)
  from i have "nat ?i < length letters"
    using go_rem_36 [of "fst (now_nano e s)"] by (simp add: letters_def)
  then have "letters ! nat ?i \<in> set letters" by (rule nth_mem)
  with Suc.IH [OF b'] b show ?case by simp
qed

lemma map_of_update: "map_of (AList.update k v al) k = Some v"
  by (simp add: update_conv')

lemma write_file_lookup:
  "write_file ss d t n = Inr n' \<Longrightarrow> lookup ss n' = Inr (File d t)"
proof (induction ss d t n arbitrary: n' rule: write_file.induct)
  case (1 ss d t d' m)
  then show ?case by (auto split: if_splits)
next
  case (2 d t es)
  then show ?case by simp
next
  case (3 s d t es)
  then show ?case
    by (auto simp: map_of_update split: option.splits node.splits)
next
  case (4 s s' ss d t es)
  then show ?case
    by (auto simp: map_of_update split: option.splits sum.splits)
qed

lemma WriteFile_stores:
  assumes "WriteFile e p d s = (Inr u, s')"
  shows "p \<noteq> [] \<and> (\<exists>t. lookup (resolve (wd e) p) (fs s') = Inr (File d t))"
  using assms
  by (auto simp: WriteFile_def Let_def now_nano_def write_file_lookup
      split: if_splits option.splits sum.splits)

section \<open>An ingest and the serving of its key\<close>

lemma getExt_cases:
  "getExtFromContentType ct = ''jpg'' \<or> getExtFromContentType ct = ''png''
   \<or> getExtFromContentType ct = ''webp'' \<or> getExtFromContentType ct = ''gif''"
  by (simp add: getExtFromContentType_def)

lemma served_type_of_ext:
  "content_type_of_ext (ToLower f (CHR ''.'' # getExtFromContentType ct)) = sniffed_media_type ct"
  by (simp add: getExtFromContentType_def sniffed_media_type_def content_type_of_ext_def
      ToLower_def isASCII_def lower_byte_def)

lemma Ext_of_key:
  assumes "set rnd \<subseteq> set letters"
  shows "Ext (Join a (p @ show_int t @ ''-'' @ rnd @ ''.'' @ getExtFromContentType ct))
           = CHR ''.'' # getExtFromContentType ct"
proof -
  let ?x = "getExtFromContentType ct"
  let ?n = "show_int t @ ''-'' @ rnd @ ''.'' @ ?x"
  from assms have r: "CHR ''/'' \<notin> set rnd" by (auto simp: letters_def)
  have x: "CHR ''/'' \<notin> set ?x" "CHR ''.'' \<notin> set ?x" "?x \<noteq> []" "last ?x \<noteq> CHR ''.''"
    using getExt_cases [of ct] by auto
  from r x(1) have 1: "CHR ''/'' \<notin> set ?n" by (simp add: show_int_no_sep)
  have 2: "?n \<noteq> []" by simp
  from x(3,4) have 3: "last ?n \<noteq> CHR ''.''" by simp
  from Join_keeps_last_name [OF 1 2 3, of a p] obtain y
    where "Join a (p @ ?n) = (y @ show_int t @ ''-'' @ rnd) @ CHR ''.'' # ?x"
    by auto
  then show ?thesis
    using Ext_of_name [OF x(2) x(1), of "y @ show_int t @ ''-'' @ rnd"] by simp
qed

lemma store_image_success:
  assumes "store_image cfg e b ct s1 = (ProxySuccess url ct' n, s')"
  shows "\<exists>t rnd m. set rnd \<subseteq> set letters
           \<and> url = CustomDomain cfg @ ''/'' @
                   (PathPrefix cfg @ show_int t @ ''-'' @ rnd @ ''.'' @ getExtFromContentType ct)
           \<and> ct' = ct \<and> n = length b
           \<and> Join (StoragePath cfg)
                (PathPrefix cfg @ show_int t @ ''-'' @ rnd @ ''.'' @ getExtFromContentType ct) \<noteq> []
           \<and> lookup (resolve (wd e) (Join (StoragePath cfg)
                (PathPrefix cfg @ show_int t @ ''-'' @ rnd @ ''.'' @ getExtFromContentType ct)))
                (fs s') = Inr (File b m)"
proof -
  let ?x = "getExtFromContentType ct"
  have x: "?x \<noteq> []" using getExt_cases [of ct] by auto
  obtain t s2 where t: "now_nano e s1 = (t, s2)" by (cases "now_nano e s1")
  obtain ro s3 where ro: "randomString e 6 s2 = (ro, s3)" by (cases "randomString e 6 s2")
  from assms x t ro obtain rnd where rnd: "ro = Some rnd"
    by (cases ro) (auto simp: store_image_def Let_def)
  let ?key = "PathPrefix cfg @ show_int t @ ''-'' @ rnd @ ''.'' @ ?x"
  let ?p = "Join (StoragePath cfg) ?key"
  obtain mr s4 where mr: "MkdirAll e (Dir_of ?p) s3 = (mr, s4)"
    by (cases "MkdirAll e (Dir_of ?p) s3")
  obtain wr s5 where wr: "WriteFile e ?p b s4 = (wr, s5)"
    by (cases "WriteFile e ?p b s4")
  from assms x t ro rnd mr obtain u where u: "mr = Inr u"
    by (cases mr) (auto simp: store_image_def Let_def)
  from assms x t ro rnd mr u wr obtain u' where u': "wr = Inr u'"
    by (cases wr) (auto simp: store_image_def Let_def)
  from assms x t ro rnd mr u wr u'
  have res: "url = CustomDomain cfg @ ''/'' @ ?key" "ct' = ct" "n = length b" "s' = s5"
    by (auto simp: store_image_def Let_def)
  from WriteFile_stores [of e ?p b s4 u' s5] wr u' obtain m
    where m: "?p \<noteq> []" "lookup (resolve (wd e) ?p) (fs s5) = Inr (File b m)"
    by auto
  from randomString_chars [of e 6 s2 rnd s3] ro rnd have "set rnd \<subseteq> set letters" by simp
  with res m show ?thesis by blast
qed

lemma handleImage_serves:
  assumes "lookup (resolve (wd e) (Join (StoragePath cfg) key)) (fs s) = Inr (File b m)"
    and "Join (StoragePath cfg) key \<noteq> []"
    and "\<not> fault e OpStat (Join (StoragePath cfg) key)"
    and "\<not> fault e OpOpen (Join (StoragePath cfg) key)"
  shows "handleImage cfg e (CHR ''/'' # key) s
           = Served (content_type_of_ext (ToLower (utab e) (Ext (Join (StoragePath cfg) key))))
               (m div second) b"
  using assms
  by (simp add: handleImage_def image_path_def TrimPrefix_def HasPrefix_def sys_stat_def
      sys_open_read_def)

lemma ingest_then_serve:
  assumes "handleProxy cfg e r s = (ProxySuccess url ct n, s')"
    and "\<forall>p. \<not> fault e OpStat p \<and> \<not> fault e OpOpen p"
  shows "\<exists>d k b key tag. Body r = Some d \<and> k < 3
           \<and> (\<forall>j<k. isl (download_result
                  (net e (fetches s + j) (TrimSpace (map_index d ''url'')))))
           \<and> download_result (net e (fetches s + k) (TrimSpace (map_index d ''url''))) = Inr (b, ct)
           \<and> url = CustomDomain cfg @ ''/'' @ key \<and> n = length b
           \<and> Ext (Join (StoragePath cfg) key) = CHR ''.'' # getExtFromContentType ct
           \<and> (\<exists>stem. key = stem @ CHR ''.'' # getExtFromContentType ct)
           \<and> handleImage cfg e (CHR ''/'' # key) s' = Served (sniffed_media_type ct) tag b"
proof -
  from assms(1) obtain d where d: "Body r = Some d"
    by (cases "Body r") (auto simp: handleProxy_def split: if_splits)
  let ?u = "TrimSpace (map_index d ''url'')"
  obtain res s1 where a: "attempts e ?u 0 (Inr ([], [])) s = (res, s1)"
    by (cases "attempts e ?u 0 (Inr ([], [])) s")
  from assms(1) d a obtain b c where res: "res = Inr (b, c)"
    and st: "store_image cfg e b c s1 = (ProxySuccess url ct n, s')"
    by (cases res) (auto simp: handleProxy_def Let_def split: if_splits)
  from attempts_run [OF _ a] res obtain k where k: "k < 3"
    "\<forall>j<k. isl (download_result (net e (fetches s + j) ?u))"
    "download_result (net e (fetches s + k) ?u) = Inr (b, c)"
    by auto
  from store_image_success [OF st] obtain t rnd m
    where rnd: "set rnd \<subseteq> set letters"
      and url: "url = CustomDomain cfg @ ''/'' @
                   (PathPrefix cfg @ show_int t @ ''-'' @ rnd @ ''.'' @ getExtFromContentType c)"
      and c: "ct = c" and n: "n = length b"
      and ne: "Join (StoragePath cfg)
                (PathPrefix cfg @ show_int t @ ''-'' @ rnd @ ''.'' @ getExtFromContentType c) \<noteq> []"
      and lk: "lookup (resolve (wd e) (Join (StoragePath cfg)
                (PathPrefix cfg @ show_int t @ ''-'' @ rnd @ ''.'' @ getExtFromContentType c)))
                (fs s') = Inr (File b m)"
    by blast
  let ?key = "PathPrefix cfg @ show_int t @ ''-'' @ rnd @ ''.'' @ getExtFromContentType c"
  have ext: "Ext (Join (StoragePath cfg) ?key) = CHR ''.'' # getExtFromContentType c"
    by (rule Ext_of_key [OF rnd])
  from handleImage_serves [OF lk ne] assms(2) ext
  have "handleImage cfg e (CHR ''/'' # ?key) s'
          = Served (sniffed_media_type c) (m div second) b"
    by (simp add: served_type_of_ext)
  moreover have "?key = (PathPrefix cfg @ show_int t @ ''-'' @ rnd) @ CHR ''.'' # getExtFromContentType c"
    by simp
  ultimately show ?thesis
    using d k url c n ext by blast
qed

section \<open>Claims about ingesting and serving\<close>

lemma randomString_numeral:
  "randomString e (numeral k) s =
     (let (t, s1) = now_nano e s;
          i = go_rem t (int (length letters))
      in if i < 0 then (None, s1)
         else (case randomString e (pred_numeral k) s1 of
                 (None, s2) \<Rightarrow> (None, s2)
               | (Some b, s2) \<Rightarrow> (Some (letters ! nat i # b), s2)))"
  by (simp add: numeral_eq_Suc)

lemmas run_defs = handleProxy_def store_image_def map_index_def post_def
  example_cfg_def example_env_def example_state_def example_fs_def ticking_def frozen_def
  answers_def stored_state_def
  TrimSpace_def space_encodings_def attempts.simps downloadImage_def download_result_def
  media_type_of_def getExtFromContentType_def now_nano_def randomString_numeral go_rem_def
  letters_def show_int_def show_nat.simps digit_char_def Join_def Clean_def clean_step_def
  rooted_def Dir_of_def MkdirAll_def WriteFile_def resolve_def resolve_step_def Let_def
  handleImage_def image_path_def TrimPrefix_def HasPrefix_def sys_stat_def sys_open_read_def Ext_def
  ToLower_def isASCII_def lower_byte_def content_type_of_ext_def second_def

lemma run_jpeg:
  "fst (handleProxy example_cfg (example_env (answers ''image/jpeg; charset=binary'') ticking)
     (post ''  http://h/a.jpg '') example_state)
   = ProxySuccess ''https://images.example.com/img/1700000000000000000-jklmno.jpg''
       ''image/jpeg'' 23"
  by (simp add: run_defs)

lemma run_blob:
  "fst (handleProxy example_cfg (example_env (answers ''application/octet-stream'') ticking)
     (post ''http://h/blob'') example_state)
   = ProxySuccess ''https://images.example.com/img/1700000000000000000-jklmno.png''
       ''application/octet-stream'' 22"
  by (simp add: run_defs)

text \<open>
  Claim C1. After an ingest that succeeds, the URL it returns is the domain, a slash and a
  key; serving that key gives exactly the bytes of the first download that succeeded
  (their number is the size in the response), with the media type that belongs to the
  content type of that download. The system calls \<open>Stat\<close> and \<open>Open\<close> are taken not to
  fail for a reason outside the file tree.
\<close>

theorem ingest_serve_roundtrip:
  assumes "handleProxy cfg e r s = (ProxySuccess url ct n, s')"
    and "\<forall>p. \<not> fault e OpStat p \<and> \<not> fault e OpOpen p"
  shows "\<exists>d k b key tag. Body r = Some d \<and> k < 3
           \<and> (\<forall>j<k. isl (download_result
                  (net e (fetches s + j) (TrimSpace (map_index d ''url'')))))
           \<and> download_result (net e (fetches s + k) (TrimSpace (map_index d ''url''))) = Inr (b, ct)
           \<and> url = CustomDomain cfg @ ''/'' @ key \<and> n = length b
           \<and> handleImage cfg e (CHR ''/'' # key) s' = Served (sniffed_media_type ct) tag b"
  using ingest_then_serve [OF assms] by blast

theorem ingest_serve_roundtrip_witness:
  "\<exists>tag. handleImage example_cfg (example_env (answers ''image/jpeg; charset=binary'') ticking)
       ''/img/1700000000000000000-jklmno.jpg''
       (snd (handleProxy example_cfg (example_env (answers ''image/jpeg; charset=binary'') ticking)
          (post ''  http://h/a.jpg '') example_state))
     = Served ''image/jpeg'' tag ''image at http://h/a.jpg''"
proof -
  let ?e = "example_env (answers ''image/jpeg; charset=binary'') ticking"
  let ?r = "post ''  http://h/a.jpg ''"
  have h: "handleProxy example_cfg ?e ?r example_state
      = (ProxySuccess ''https://images.example.com/img/1700000000000000000-jklmno.jpg''
           ''image/jpeg'' 23, snd (handleProxy example_cfg ?e ?r example_state))"
    using run_jpeg by (simp add: prod_eq_iff)
  have nf: "\<forall>p. \<not> fault ?e OpStat p \<and> \<not> fault ?e OpOpen p"
    by (simp add: example_env_def)
  have t: "TrimSpace ''  http://h/a.jpg '' = ''http://h/a.jpg''"
    by (simp add: TrimSpace_def space_encodings_def)
  from ingest_serve_roundtrip [OF h nf] t show ?thesis
    by (auto simp: post_def map_index_def example_cfg_def example_env_def answers_def
        download_result_def sniffed_media_type_def)
qed

text \<open>
  Claim C6, as the specification states it: for a content type outside the supported
  set the response of the ingest reports \<open>image/png\<close>. A download of
  \<open>application/octet-stream\<close> is stored under a key that ends in \<open>.png\<close>, and the response
  reports \<open>application/octet-stream\<close>.
\<close>

theorem unknown_type_response_counterexample:
  "fst (handleProxy example_cfg (example_env (answers ''application/octet-stream'') ticking)
     (post ''http://h/blob'') example_state)
   = ProxySuccess ''https://images.example.com/img/1700000000000000000-jklmno.png''
       ''application/octet-stream'' 22
   \<and> ''application/octet-stream'' \<noteq> ''image/png''"
  using run_blob by simp

text \<open>
  Claim C6, amended: for a content type outside the supported set, an ingest that
  succeeds stores the file under a key with the extension \<open>png\<close>; its response reports the
  content type of the download as it is, and \<open>image/png\<close> is the media type with which the
  key is served.
\<close>

theorem unknown_type_stored_as_png:
  assumes "handleProxy cfg e r s = (ProxySuccess url ct n, s')"
    and "ct \<notin> {''image/jpeg'', ''image/jpg'', ''image/png'', ''image/webp'', ''image/gif''}"
    and "\<forall>p. \<not> fault e OpStat p \<and> \<not> fault e OpOpen p"
  shows "\<exists>d k b key stem tag. Body r = Some d \<and> k < 3
           \<and> download_result (net e (fetches s + k) (TrimSpace (map_index d ''url''))) = Inr (b, ct)
           \<and> url = CustomDomain cfg @ ''/'' @ key \<and> key = stem @ ''.png''
           \<and> Ext (Join (StoragePath cfg) key) = ''.png''
           \<and> handleImage cfg e (CHR ''/'' # key) s' = Served ''image/png'' tag b"
proof -
  from assms(2) have x: "getExtFromContentType ct = ''png''" "sniffed_media_type ct = ''image/png''"
    by (simp_all add: getExtFromContentType_def sniffed_media_type_def)
  from ingest_then_serve [OF assms(1,3)] show ?thesis
    unfolding x by (simp only: append_Cons append_Nil) blast
qed

theorem unknown_type_stored_as_png_witness:
  "\<exists>tag. handleImage example_cfg (example_env (answers ''application/octet-stream'') ticking)
       ''/img/1700000000000000000-jklmno.png''
       (snd (handleProxy example_cfg (example_env (answers ''application/octet-stream'') ticking)
          (post ''http://h/blob'') example_state))
     = Served ''image/png'' tag ''image at http://h/blob''"
proof -
  let ?e = "example_env (answers ''application/octet-stream'') ticking"
  let ?r = "post ''http://h/blob''"
  have h: "handleProxy example_cfg ?e ?r example_state
      = (ProxySuccess ''https://images.example.com/img/1700000000000000000-jklmno.png''
           ''application/octet-stream'' 22, snd (handleProxy example_cfg ?e ?r example_state))"
    using run_blob by (simp add: prod_eq_iff)
  have c: "''application/octet-stream''
             \<notin> {''image/jpeg'', ''image/jpg'', ''image/png'', ''image/webp'', ''image/gif''}"
    by simp
  have nf: "\<forall>p. \<not> fault ?e OpStat p \<and> \<not> fault ?e OpOpen p"
    by (simp add: example_env_def)
  have t: "TrimSpace ''http://h/blob'' = ''http://h/blob''"
    by (simp add: TrimSpace_def space_encodings_def)
  from unknown_type_stored_as_png [OF h c nf] t show ?thesis
    by (auto simp: post_def map_index_def example_cfg_def example_env_def answers_def
        download_result_def)
qed

section \<open>Claims about keys and about what is served\<close>

lemma store_image_run:
  assumes "now_nano e s1 = (t, s2)"
    and "randomString e 6 s2 = (Some rnd, s3)"
    and "Join (StoragePath cfg)
           (PathPrefix cfg @ show_int t @ ''-'' @ rnd @ ''.'' @ getExtFromContentType ct) = p"
    and "MkdirAll e (Dir_of p) s3 = (Inr u, s4)"
    and "WriteFile e p b s4 = (Inr u', s5)"
  shows "store_image cfg e b ct s1
           = (ProxySuccess (CustomDomain cfg @ ''/'' @ PathPrefix cfg @ show_int t @ ''-'' @ rnd
                @ ''.'' @ getExtFromContentType ct) ct (length b), s5)"
proof -
  have x: "getExtFromContentType ct \<noteq> []" using getExt_cases [of ct] by auto
  show ?thesis
    unfolding store_image_def Let_def assms(1) prod.case assms(2) option.case
    using x assms(3-5) by simp
qed

lemma handleProxy_run:
  assumes "Method r = ''POST''" and "APIKey cfg = [] \<or> XAPIKey r = APIKey cfg"
    and "Body r = Some d" and "TrimSpace (map_index d ''url'') = u" and "u \<noteq> []"
    and "attempts e u 0 (Inr ([], [])) s = (Inr (b, ct), s1)"
  shows "handleProxy cfg e r s = store_image cfg e b ct s1"
  using assms by (auto simp: handleProxy_def)

lemma frozen_now:
  "now_nano (example_env n frozen) s = (1700000000000000000, s\<lparr>ticks := ticks s + 1\<rparr>)"
  by (simp add: now_nano_def example_env_def frozen_def)

lemma frozen_random:
  "randomString (example_env n frozen) 6 s = (Some ''iiiiii'', s\<lparr>ticks := ticks s + 6\<rparr>)"
  by (simp add: randomString_numeral frozen_now go_rem_def letters_def)

lemma frozen_attempts:
  "attempts (example_env (answers h) frozen) u 0 prev s
     = (Inr (''image at '' @ u, media_type_of h),
        s\<lparr>fetches := fetches s + 1, events := events s @ [EvFetch u]\<rparr>)"
  by (simp add: attempts.simps [of _ _ 0] downloadImage_def download_result_def example_env_def
      answers_def)

lemma key_path:
  "Join ''./storage'' ''img/1700000000000000000-iiiiii.jpg''
     = ''storage/img/1700000000000000000-iiiiii.jpg''"
  by (simp add: Join_def Clean_def clean_step_def rooted_def)

lemma key_dir: "Dir_of ''storage/img/1700000000000000000-iiiiii.jpg'' = ''storage/img''"
  by (simp add: Dir_of_def Clean_def clean_step_def rooted_def)

lemma ingest_one:
  "handleProxy example_cfg (example_env (answers ''image/jpeg'') frozen)
     (post ''http://h/one.jpg'') example_state
     = (ProxySuccess ''https://images.example.com/img/1700000000000000000-iiiiii.jpg''
          ''image/jpeg'' 25, after_one)"
proof -
  let ?e = "example_env (answers ''image/jpeg'') frozen"
  let ?p = "''storage/img/1700000000000000000-iiiiii.jpg''"
  let ?b = "''image at http://h/one.jpg''"
  let ?s1 = "\<lparr>fs = example_fs, fetches = 1, ticks = 0, events = [EvFetch ''http://h/one.jpg'']\<rparr>"
  let ?fs = "Dir [(''root'', Dir [(''storage'', Dir [(''img'', Dir [])])]),
                  (''etc'', Dir [(''passwd'', File ''root:x:0:0'' 1600000000000000000)])]"
  have t: "TrimSpace (map_index [''url'' \<mapsto> ''http://h/one.jpg''] ''url'') = ''http://h/one.jpg''"
    by (simp add: map_index_def TrimSpace_def space_encodings_def)
  have a: "attempts ?e ''http://h/one.jpg'' 0 (Inr ([], [])) example_state
             = (Inr (?b, ''image/jpeg''), ?s1)"
    by (simp add: frozen_attempts example_state_def media_type_of_def TrimSpace_def
        space_encodings_def)
  have n: "now_nano ?e ?s1 = (1700000000000000000, ?s1\<lparr>ticks := 1\<rparr>)"
    by (simp add: frozen_now)
  have r: "randomString ?e 6 (?s1\<lparr>ticks := 1\<rparr>) = (Some ''iiiiii'', ?s1\<lparr>ticks := 7\<rparr>)"
    by (simp add: frozen_random)
  have j: "Join (StoragePath example_cfg)
             (PathPrefix example_cfg @ show_int 1700000000000000000 @ ''-'' @ ''iiiiii'' @ ''.'' @
              getExtFromContentType ''image/jpeg'') = ?p"
    by (simp add: example_cfg_def show_int_def show_nat.simps digit_char_def
        getExtFromContentType_def key_path)
  have m: "MkdirAll ?e (Dir_of ?p) (?s1\<lparr>ticks := 7\<rparr>) = (Inr (), ?s1\<lparr>ticks := 7, fs := ?fs\<rparr>)"
    by (simp add: key_dir MkdirAll_def example_env_def example_fs_def resolve_def
        resolve_step_def rooted_def)
  have w: "WriteFile ?e ?p ?b (?s1\<lparr>ticks := 7, fs := ?fs\<rparr>) = (Inr (), after_one)"
    by (simp add: WriteFile_def now_nano_def example_env_def frozen_def resolve_def
        resolve_step_def rooted_def after_one_def)
  have "handleProxy example_cfg ?e (post ''http://h/one.jpg'') example_state
          = store_image example_cfg ?e ?b ''image/jpeg'' ?s1"
    by (rule handleProxy_run [OF _ _ _ t _ a]) (simp_all add: post_def example_cfg_def)
  also from store_image_run [OF n r j m w]
  have "\<dots> = (ProxySuccess ''https://images.example.com/img/1700000000000000000-iiiiii.jpg''
                  ''image/jpeg'' 25, after_one)"
    by (simp add: example_cfg_def show_int_def show_nat.simps digit_char_def
        getExtFromContentType_def)
  finally show ?thesis .
qed

lemma ingest_two:
  "handleProxy example_cfg (example_env (answers ''image/jpeg'') frozen)
     (post ''http://h/two.jpg'') after_one
     = (ProxySuccess ''https://images.example.com/img/1700000000000000000-iiiiii.jpg''
          ''image/jpeg'' 25, after_two)"
proof -
  let ?e = "example_env (answers ''image/jpeg'') frozen"
  let ?p = "''storage/img/1700000000000000000-iiiiii.jpg''"
  let ?b = "''image at http://h/two.jpg''"
  let ?s1 = "after_one\<lparr>fetches := 2,
               events := [EvFetch ''http://h/one.jpg'', EvFetch ''http://h/two.jpg'']\<rparr>"
  have t: "TrimSpace (map_index [''url'' \<mapsto> ''http://h/two.jpg''] ''url'') = ''http://h/two.jpg''"
    by (simp add: map_index_def TrimSpace_def space_encodings_def)
  have a: "attempts ?e ''http://h/two.jpg'' 0 (Inr ([], [])) after_one
             = (Inr (?b, ''image/jpeg''), ?s1)"
    by (simp add: frozen_attempts after_one_def media_type_of_def TrimSpace_def
        space_encodings_def)
  have n: "now_nano ?e ?s1 = (1700000000000000000, ?s1\<lparr>ticks := 9\<rparr>)"
    by (simp add: frozen_now after_one_def)
  have r: "randomString ?e 6 (?s1\<lparr>ticks := 9\<rparr>) = (Some ''iiiiii'', ?s1\<lparr>ticks := 15\<rparr>)"
    by (simp add: frozen_random)
  have j: "Join (StoragePath example_cfg)
             (PathPrefix example_cfg @ show_int 1700000000000000000 @ ''-'' @ ''iiiiii'' @ ''.'' @
              getExtFromContentType ''image/jpeg'') = ?p"
    by (simp add: example_cfg_def show_int_def show_nat.simps digit_char_def
        getExtFromContentType_def key_path)
  have m: "MkdirAll ?e (Dir_of ?p) (?s1\<lparr>ticks := 15\<rparr>) = (Inr (), ?s1\<lparr>ticks := 15\<rparr>)"
    by (simp add: key_dir MkdirAll_def example_env_def after_one_def resolve_def
        resolve_step_def rooted_def)
  have w: "WriteFile ?e ?p ?b (?s1\<lparr>ticks := 15\<rparr>) = (Inr (), after_two)"
    by (simp add: WriteFile_def now_nano_def example_env_def frozen_def resolve_def
        resolve_step_def rooted_def after_one_def after_two_def)
  have "handleProxy example_cfg ?e (post ''http://h/two.jpg'') after_one
          = store_image example_cfg ?e ?b ''image/jpeg'' ?s1"
    by (rule handleProxy_run [OF _ _ _ t _ a]) (simp_all add: post_def example_cfg_def)
  also from store_image_run [OF n r j m w]
  have "\<dots> = (ProxySuccess ''https://images.example.com/img/1700000000000000000-iiiiii.jpg''
                  ''image/jpeg'' 25, after_two)"
    by (simp add: example_cfg_def show_int_def show_nat.simps digit_char_def
        getExtFromContentType_def)
  finally show ?thesis .
qed

lemma serve_two:
  "handleImage example_cfg (example_env (answers ''image/jpeg'') frozen)
     ''/img/1700000000000000000-iiiiii.jpg'' after_two
     = Served ''image/jpeg'' 1700000000 ''image at http://h/two.jpg''"
  by (simp add: run_defs after_two_def)

text \<open>
  Claim C5. The key of an ingest is made of readings of the clock alone: the time stamp
  is one reading and each byte of \<open>randomString\<close> is another one modulo 36. Two ingests of
  the same content type that find the same readings make the same key. Here the clock
  stands still during two ingests of different images: both succeed, both return the
  same URL, and the file of the first is overwritten by the second.
\<close>

theorem same_tick_same_key:
  "handleProxy example_cfg (example_env (answers ''image/jpeg'') frozen)
     (post ''http://h/one.jpg'') example_state
     = (ProxySuccess ''https://images.example.com/img/1700000000000000000-iiiiii.jpg''
          ''image/jpeg'' 25, after_one)
   \<and> handleProxy example_cfg (example_env (answers ''image/jpeg'') frozen)
       (post ''http://h/two.jpg'') after_one
     = (ProxySuccess ''https://images.example.com/img/1700000000000000000-iiiiii.jpg''
          ''image/jpeg'' 25, after_two)
   \<and> handleImage example_cfg (example_env (answers ''image/jpeg'') frozen)
         ''/img/1700000000000000000-iiiiii.jpg'' after_two
     = Served ''image/jpeg'' 1700000000 ''image at http://h/two.jpg''"
  using ingest_one ingest_two serve_two by simp

text \<open>
  Claim C10. \<open>handleImage\<close> serves a file that exists and answers 404 for a name that
  does not exist, but a request for a name below a regular file makes \<open>Stat\<close> fail with
  \<open>ENOTDIR\<close>, and so does any failure of \<open>Stat\<close> other than \<open>ENOENT\<close> (here: one for a
  reason outside the tree); then \<open>info\<close> is \<open>nil\<close>, \<open>info.IsDir()\<close> is called on it and the
  handler panics instead of answering.
\<close>

theorem stat_failure_panics:
  "handleImage example_cfg (example_env always_500 ticking) ''/img/a.png'' stored_state
     = Served ''image/png'' 1700000000 ''PNG''
   \<and> handleImage example_cfg (example_env always_500 ticking) ''/img/b.png'' stored_state
     = NotFound
   \<and> sys_stat (example_env always_500 ticking) stored_state
         (image_path example_cfg ''/img/a.png/x'') = Inl ENOTDIR
   \<and> handleImage example_cfg (example_env always_500 ticking) ''/img/a.png/x'' stored_state
     = ServePanic
   \<and> handleImage example_cfg
         ((example_env always_500 ticking)\<lparr>fault := (\<lambda>opn p. opn = OpStat)\<rparr>)
         ''/img/a.png'' stored_state
     = ServePanic"
  by (simp add: run_defs)


section \<open>Cleaning a path does not change where it leads\<close>

















section \<open>The sweep of \<open>cleanupOldFiles\<close>\<close>

lemma files_unreached:
  "x \<in> set (files_of e False p n) \<Longrightarrow> \<not> evicted e now ttl x"
  "x \<in> set (files_in e False p es) \<Longrightarrow> \<not> evicted e now ttl x"
  by (induction e "False" p n and e "False" p es rule: files_of_files_in.induct)
    (auto simp: evicted_def)

lemma filter_unreached:
  "filter (\<lambda>x. \<not> evicted e now ttl x) (files_of e False p n) = files_of e False p n"
  "filter (\<lambda>x. \<not> evicted e now ttl x) (files_in e False p es) = files_in e False p es"
  using files_unreached [of _ e p] by (simp_all add: filter_id_conv)

lemma files_reached:
  assumes "\<forall>opn q. \<not> fault e opn q"
  shows "x \<in> set (files_of e True p n) \<Longrightarrow> snd (snd (snd x))"
    and "x \<in> set (files_in e True p es) \<Longrightarrow> snd (snd (snd x))"
  using assms
  by (induction e "True" p n and e "True" p es rule: files_of_files_in.induct) auto

lemma walk_files:
  "files_opt e True p (walk e now ttl p n)
     = filter (\<lambda>x. \<not> evicted e now ttl x) (files_of e True p n)"
  "files_in e True p (walk_names e now ttl p es)
     = filter (\<lambda>x. \<not> evicted e now ttl x) (files_in e True p es)"
proof (induction e now ttl p n and e now ttl p es rule: walk_walk_names.induct)
  case (1 e now ttl path d m)
  then show ?case by (simp add: files_opt_def visit_def evicted_def)
next
  case (2 e now ttl path es)
  then show ?case by (simp add: files_opt_def visit_def filter_unreached)
next
  case (3 e now ttl path)
  then show ?case by simp
next
  case (4 e now ttl path name c es)
  show ?case
  proof (cases "fault e OpLstat (Join path name)")
    case True
    with "4.IH"(1) show ?thesis by (simp add: visit_def filter_unreached)
  next
    case False
    with "4.IH"(2) [OF False] "4.IH"(3,4) [OF False] show ?thesis
      by (cases "walk e now ttl (Join path name) c") (simp_all add: files_opt_def)
  qed
qed

lemma walk_Dir: "walk e now ttl p (Dir es) \<noteq> None"
  by (simp add: visit_def)

lemma lookup_put_at_Some:
  "lookup ss n = Inr x \<Longrightarrow> lookup ss (put_at ss (Some x') n) = Inr x'"
proof (induction ss arbitrary: n)
  case Nil
  then show ?case by simp
next
  case (Cons s ss)
  then show ?case
    by (cases n) (auto simp: map_of_update split: option.splits)
qed

lemma lookup_put_at_None:
  "lookup ss n = Inr x \<Longrightarrow> ss \<noteq> [] \<Longrightarrow> isl (lookup ss (put_at ss None n))"
proof (induction ss arbitrary: n)
  case Nil
  then show ?case by simp
next
  case (Cons s ss)
  show ?case
  proof (cases n)
    case (File d m)
    with Cons.prems show ?thesis by simp
  next
    case (Dir es)
    with Cons.prems obtain c where c: "map_of es s = Some c" "lookup ss c = Inr x"
      by (auto split: option.splits)
    show ?thesis
    proof (cases ss)
      case Nil
      with Dir show ?thesis by (simp add: delete_conv')
    next
      case (Cons s' ss')
      with Dir c Cons.IH [of c] show ?thesis by (simp add: map_of_update)
    qed
  qed
qed

lemma cleanup_files:
  assumes "fs s = Dir es"
  shows "store_files cfg e (cleanupOldFiles cfg e s)
           = filter (\<lambda>x. \<not> evicted e (clock e (ticks s)) (FileExpiryHours cfg) x)
               (store_files cfg e s)"
proof -
  let ?root = "StoragePath cfg"
  let ?segs = "resolve (wd e) ?root"
  let ?now = "clock e (ticks s)"
  let ?ttl = "FileExpiryHours cfg"
  show ?thesis
  proof (cases "?root = [] \<or> fault e OpLstat ?root")
    case True
    then show ?thesis
      by (auto simp: store_files_def cleanupOldFiles_def Let_def now_nano_def filter_unreached
          split: sum.splits)
  next
    case False
    show ?thesis
    proof (cases "lookup ?segs (fs s)")
      case (Inl er)
      with False show ?thesis
        by (simp add: store_files_def cleanupOldFiles_def Let_def now_nano_def)
    next
      case (Inr n)
      let ?v = "walk e ?now ?ttl ?root n"
      from False Inr have c: "fs (cleanupOldFiles cfg e s) = put_at ?segs ?v (fs s)"
        by (simp add: cleanupOldFiles_def Let_def now_nano_def)
      from False Inr have before: "store_files cfg e s = files_of e True ?root n"
        by (simp add: store_files_def)
      show ?thesis
      proof (cases ?v)
        case (Some n')
        with lookup_put_at_Some [OF Inr, of n'] c False
        have "store_files cfg e (cleanupOldFiles cfg e s) = files_opt e True ?root ?v"
          by (simp add: store_files_def files_opt_def)
        with before show ?thesis by (simp add: walk_files)
      next
        case None
        have "?segs \<noteq> []"
        proof
          assume "?segs = []"
          with Inr assms have "n = Dir es" by simp
          with None walk_Dir show False by blast
        qed
        from lookup_put_at_None [OF Inr this] None c False
        have "store_files cfg e (cleanupOldFiles cfg e s) = files_opt e True ?root ?v"
          by (auto simp: store_files_def files_opt_def split: sum.splits)
        with before show ?thesis by (simp add: walk_files)
      qed
    qed
  qed
qed

text \<open>
  Claim C8. For every state whose root is a directory and every sweep, the files of the
  store after the sweep are the files before it, with their bytes and modification times,
  except those that the sweep evicts: the files it reaches whose age at the time of the
  sweep is above the time to live and whose removal does not fail. Each file is judged
  on its own, so a failure at one entry does not keep the sweep from the others; when no
  system call fails, the files that are gone are exactly those whose age is above the
  time to live.
\<close>

theorem sweep_evicts_expired_files:
  assumes "fs s = Dir es"
  shows "store_files cfg e (cleanupOldFiles cfg e s)
           = filter (\<lambda>x. \<not> evicted e (clock e (ticks s)) (FileExpiryHours cfg) x)
               (store_files cfg e s)
         \<and> ((\<forall>opn q. \<not> fault e opn q) \<longrightarrow>
              store_files cfg e (cleanupOldFiles cfg e s)
                = filter (\<lambda>(p, d, m, r). time_Sub (clock e (ticks s)) m \<le> FileExpiryHours cfg)
                    (store_files cfg e s))"
proof (intro conjI impI)
  show "store_files cfg e (cleanupOldFiles cfg e s)
          = filter (\<lambda>x. \<not> evicted e (clock e (ticks s)) (FileExpiryHours cfg) x)
              (store_files cfg e s)"
    by (rule cleanup_files [OF assms])
next
  assume nf: "\<forall>opn q. \<not> fault e opn q"
  have "filter (\<lambda>x. \<not> evicted e (clock e (ticks s)) (FileExpiryHours cfg) x) (store_files cfg e s)
          = filter (\<lambda>(p, d, m, r). time_Sub (clock e (ticks s)) m \<le> FileExpiryHours cfg)
              (store_files cfg e s)"
  proof (rule filter_cong [OF refl])
    fix x assume x: "x \<in> set (store_files cfg e s)"
    with nf have "snd (snd (snd x))"
      by (auto simp: store_files_def dest: files_reached(1) [OF nf] split: if_splits sum.splits)
    with nf show "(\<not> evicted e (clock e (ticks s)) (FileExpiryHours cfg) x)
        = (case x of (p, d, m, r) \<Rightarrow> time_Sub (clock e (ticks s)) m \<le> FileExpiryHours cfg)"
      by (cases x) (auto simp: evicted_def)
  qed
  with cleanup_files [OF assms, of cfg e]
  show "store_files cfg e (cleanupOldFiles cfg e s)
          = filter (\<lambda>(p, d, m, r). time_Sub (clock e (ticks s)) m \<le> FileExpiryHours cfg)
              (store_files cfg e s)"
    by simp
qed

lemma sweep_state_files:
  "store_files example_cfg (example_env always_500 frozen) sweep_state
     = [(''storage/img/old.png'', ''OLD'', 1699910000000000000, True),
        (''storage/img/new.png'', ''NEW'', 1699996400000000000, True)]"
  by (simp add: store_files_def example_cfg_def example_env_def sweep_state_def resolve_def
      resolve_step_def rooted_def Join_def Clean_def clean_step_def)

theorem sweep_evicts_expired_files_witness:
  "store_files example_cfg (example_env always_500 frozen)
     (cleanupOldFiles example_cfg (example_env always_500 frozen) sweep_state)
   = [(''storage/img/new.png'', ''NEW'', 1699996400000000000, True)]"
proof -
  have d: "fs sweep_state = Dir [(''root'', Dir [(''storage'', Dir [(''img'',
              Dir [(''old.png'', File ''OLD'' 1699910000000000000),
                   (''new.png'', File ''NEW'' 1699996400000000000)])])])]"
    by (simp add: sweep_state_def)
  have n: "clock (example_env always_500 frozen) (ticks sweep_state) = 1700000000000000000"
    "FileExpiryHours example_cfg = 86400000000000"
    "\<And>p. \<not> fault (example_env always_500 frozen) OpRemove p"
    by (simp_all add: example_env_def frozen_def example_cfg_def second_def)
  from sweep_evicts_expired_files [OF d, of example_cfg "example_env always_500 frozen"]
  show ?thesis
    by (simp add: sweep_state_files evicted_def n time_Sub_def)
qed

end
